theory Spec2Isabelle
  imports Main
begin

section \<open>Python values, errors and library operations\<close>

text \<open>
  The repository is Python glue code over numpy, pandas and scikit-learn. Every raise of
  the source is a value of \<open>pyerr\<close>, and a function that can raise returns
  \<open>pyerr + 'a\<close> with \<open>Inl\<close> for the exception.
\<close>

datatype pyerr =
    ValueError | TypeError | IndexError | KeyError | AssertionError | AttributeError
  | RuntimeError | StopIteration | FileNotFoundError | ShapeError

text \<open>
  Sequencing of statements that can raise: the first exception ends the computation.
\<close>

definition and_then :: "pyerr + 'a \<Rightarrow> ('a \<Rightarrow> pyerr + 'b) \<Rightarrow> pyerr + 'b" where
  "and_then m f = (case m of Inl e \<Rightarrow> Inl e | Inr x \<Rightarrow> f x)"

text \<open>
  Floating-point numbers stay abstract: \<open>'f\<close> is the type of float64 values and the
  operations the code applies to them are the fields of \<open>float_ops\<close>. Nothing is
  assumed about rounding, infinities or NaN, so every result below holds for the
  arithmetic numpy really performs.
  \<^item> \<open>of_int64 k\<close>: the float64 that numpy converts the integer \<open>k\<close> to before a true
    division or a mean;
  \<^item> \<open>true_divide x y\<close>: numpy's \<open>x / y\<close> on float64 (it never raises: a zero divisor
    gives inf or nan with a warning);
  \<^item> \<open>fzero\<close>: the Python literal \<open>0.\<close>.
\<close>

record 'f float_ops =
  of_int64 :: "int \<Rightarrow> 'f"
  true_divide :: "'f \<Rightarrow> 'f \<Rightarrow> 'f"
  fzero :: "'f"

text \<open>The values stored in a metrics dictionary: floats and integer counts.\<close>

datatype 'f pyval = VFloat 'f | VInt int

type_synonym 'f metrics = "string \<rightharpoonup> 'f pyval"

subsection \<open>numpy: elementwise comparison, mean, column selection\<close>

text \<open>
  \<open>preds == labels\<close> on two one-dimensional arrays: elementwise when the lengths agree,
  broadcast when one array has a single element, and no boolean array otherwise (the
  following \<open>.mean()\<close> then has nothing to work on).
\<close>

definition np_equal :: "int list \<Rightarrow> int list \<Rightarrow> pyerr + bool list" where
  "np_equal xs ys =
     (if length xs = length ys then Inr (map (\<lambda>(x, y). x = y) (zip xs ys))
      else if length xs = 1 then Inr (map (\<lambda>y. hd xs = y) ys)
      else if length ys = 1 then Inr (map (\<lambda>x. x = hd ys) xs)
      else Inl ShapeError)"

text \<open>\<open>bs.mean()\<close> of a boolean array: the number of True entries over the length.\<close>

definition np_mean_bool :: "'f float_ops \<Rightarrow> bool list \<Rightarrow> 'f" where
  "np_mean_bool ops bs =
     true_divide ops (of_int64 ops (int (length (filter id bs))))
                     (of_int64 ops (int (length bs)))"

text \<open>
  \<open>a[:, j]\<close> on a two-dimensional array given by its rows: IndexError when a row has no
  column \<open>j\<close>.
\<close>

definition np_column :: "'a list list \<Rightarrow> nat \<Rightarrow> pyerr + 'a list" where
  "np_column rows j =
     (if list_all (\<lambda>r. j < length r) rows then Inr (map (\<lambda>r. r ! j) rows)
      else Inl IndexError)"

subsection \<open>scikit-learn metrics\<close>

text \<open>
  The scikit-learn scoring functions are parameters of the model. Each may raise (for
  instance on labels that are not binary), so each returns \<open>pyerr + 'f\<close>.
\<close>

datatype average = Binary | Weighted

record 'f sklearn_metrics =
  f1_score :: "int list \<Rightarrow> int list \<Rightarrow> average \<Rightarrow> pyerr + 'f"
  precision_score :: "int list \<Rightarrow> int list \<Rightarrow> average \<Rightarrow> pyerr + 'f"
  recall_score :: "int list \<Rightarrow> int list \<Rightarrow> average \<Rightarrow> pyerr + 'f"
  roc_auc_score :: "int list \<Rightarrow> 'f list \<Rightarrow> pyerr + 'f"

section \<open>utils.py: accuracy metrics\<close>

definition simple_accuracy :: "'f float_ops \<Rightarrow> int list \<Rightarrow> int list \<Rightarrow> pyerr + 'f" where
  "simple_accuracy ops preds labels =
     (case np_equal preds labels of
        Inl e \<Rightarrow> Inl e
      | Inr bs \<Rightarrow> Inr (np_mean_bool ops bs))"

text \<open>
  The \<open>try\<close> block of \<open>acc_and_f1\<close>: the column \<open>pred_probs[:, 1]\<close> is taken inside
  the block, but only a ValueError is caught, and it sets \<open>roc\<close> to \<open>0.\<close>.
\<close>

definition try_roc ::
  "'f float_ops \<Rightarrow> 'f sklearn_metrics \<Rightarrow> int list \<Rightarrow> 'f list list \<Rightarrow> pyerr + 'f" where
  "try_roc ops sk labels pred_probs =
     (case np_column pred_probs 1 of
        Inl e \<Rightarrow> (if e = ValueError then Inr (fzero ops) else Inl e)
      | Inr col \<Rightarrow>
          (case roc_auc_score sk labels col of
             Inl e \<Rightarrow> (if e = ValueError then Inr (fzero ops) else Inl e)
           | Inr roc \<Rightarrow> Inr roc))"

definition acc_and_f1 ::
  "'f float_ops \<Rightarrow> 'f sklearn_metrics \<Rightarrow> int list \<Rightarrow> int list \<Rightarrow> 'f list list
     \<Rightarrow> pyerr + 'f metrics" where
  "acc_and_f1 ops sk preds labels pred_probs =
     and_then (simple_accuracy ops preds labels) (\<lambda>acc.
     and_then (f1_score sk labels preds Binary) (\<lambda>f1.
     and_then (f1_score sk labels preds Weighted) (\<lambda>f1_w.
     and_then (precision_score sk labels preds Binary) (\<lambda>p.
     and_then (recall_score sk labels preds Binary) (\<lambda>r.
     and_then (precision_score sk labels preds Weighted) (\<lambda>p_w.
     and_then (recall_score sk labels preds Weighted) (\<lambda>r_w.
     and_then (try_roc ops sk labels pred_probs) (\<lambda>roc.
       Inr (Map.empty
             (''acc'' \<mapsto> VFloat acc,
              ''f1'' \<mapsto> VFloat f1,
              ''precision'' \<mapsto> VFloat p,
              ''recall'' \<mapsto> VFloat r,
              ''auc_roc'' \<mapsto> VFloat roc,
              ''precision_weighted'' \<mapsto> VFloat p_w,
              ''recall_weighted'' \<mapsto> VFloat r_w,
              ''f1_weighted'' \<mapsto> VFloat f1_w))))))))))"

text \<open>The number of positions where two arrays agree.\<close>

definition agreements :: "int list \<Rightarrow> int list \<Rightarrow> nat" where
  "agreements xs ys = length (filter (\<lambda>i. xs ! i = ys ! i) [0..<length xs])"

text \<open>The keys of the dictionary that \<open>acc_and_f1\<close> returns.\<close>

definition metric_keys :: "string set" where
  "metric_keys = {''acc'', ''f1'', ''precision'', ''recall'', ''auc_roc'',
                  ''precision_weighted'', ''recall_weighted'', ''f1_weighted''}"

section \<open>utils.py: disparate impact\<close>

subsection \<open>pandas: the results frame and its grouped counts\<close>

text \<open>
  A column of a data frame; \<open>None\<close> is NaN. \<open>compute_disparate_impact\<close> starts from
  an empty frame and assigns three columns. pandas checks each assignment against the
  frame's index: a frame whose index is empty takes the index of a non-empty value (the
  columns it already has are then filled with NaN), and any other value must have the
  length of the index (ValueError otherwise). \<open>reindex_for n vs\<close> is the length of the
  index after assigning \<open>vs\<close> to a frame whose index has length \<open>n\<close>; \<open>refill\<close> is
  what an earlier column looks like once the index has reached its final length.
\<close>

type_synonym column = "int option list"

definition reindex_for :: "nat \<Rightarrow> int list \<Rightarrow> pyerr + nat" where
  "reindex_for n vs =
     (if n = 0 \<and> vs \<noteq> [] then Inr (length vs)
      else if length vs \<noteq> n then Inl ValueError
      else Inr n)"

definition refill :: "nat \<Rightarrow> column \<Rightarrow> column" where
  "refill n c = (if length c = n then c else replicate n None)"

record results_df =
  pred :: column
  is_aae_08 :: column
  is_aae_06 :: column

definition results_frame :: "int list \<Rightarrow> int list \<Rightarrow> int list \<Rightarrow> pyerr + results_df" where
  "results_frame preds in_group_labels_08 in_group_labels_06 =
     and_then (reindex_for 0 preds) (\<lambda>n1.
     and_then (reindex_for n1 in_group_labels_08) (\<lambda>n2.
     and_then (reindex_for n2 in_group_labels_06) (\<lambda>n3.
       Inr \<lparr>pred = refill n3 (map Some preds),
            is_aae_08 = refill n3 (map Some in_group_labels_08),
            is_aae_06 = map Some in_group_labels_06\<rparr>)))"

text \<open>
  \<open>results_df.groupby(by=...)\<close>: one group per distinct key, NaN keys dropped, groups in
  ascending order of the key. \<open>group_series\<close> is the \<open>pred\<close> series of one group.
\<close>

definition group_keys :: "column \<Rightarrow> int list" where
  "group_keys by_col =
     sort (remdups (concat (map (\<lambda>k. case k of None \<Rightarrow> [] | Some g \<Rightarrow> [g]) by_col)))"

definition group_series :: "column \<Rightarrow> column \<Rightarrow> int \<Rightarrow> column" where
  "group_series by_col pred_col g =
     map snd (filter (\<lambda>(k, p). k = Some g) (zip by_col pred_col))"

text \<open>The three aggregations: pandas' \<open>'count'\<close> (the entries that are not NaN) and
  the two local functions of the source.\<close>

definition count_agg :: "column \<Rightarrow> nat" where
  "count_agg series = length (filter (\<lambda>p. p \<noteq> None) series)"

definition favorable :: "column \<Rightarrow> nat" where
  "favorable series = length (filter (\<lambda>p. p = Some 0) series)"

definition unfavorable :: "column \<Rightarrow> nat" where
  "unfavorable series = length (filter (\<lambda>p. p = Some 1) series)"

text \<open>
  \<open>.agg({'pred': ['count', favorable, unfavorable]}).reset_index()\<close>: one row per group
  with four columns: the key, the count, the favorable and the unfavorable number. Its
  shape is \<open>(number of groups, 4)\<close>.
\<close>

definition groupby_agg :: "column \<Rightarrow> column \<Rightarrow> (int \<times> nat \<times> nat \<times> nat) list" where
  "groupby_agg by_col pred_col =
     map (\<lambda>g. (g, count_agg (group_series by_col pred_col g),
                   favorable (group_series by_col pred_col g),
                   unfavorable (group_series by_col pred_col g)))
         (group_keys by_col)"

subsection \<open>compute_disparate_impact and compute_metrics\<close>

text \<open>
  The source has the same block twice, once with the keys ending in \<open>0.8\<close> and once with
  the keys ending in \<open>0.6\<close>; \<open>tag\<close> is that ending. The block runs when the shape of
  the grouped frame is \<open>(2, 4)\<close>, that is when there are exactly two groups; row 0 is
  the group of the smaller key.
\<close>

definition add_disparate_impact ::
  "'f float_ops \<Rightarrow> string \<Rightarrow> (int \<times> nat \<times> nat \<times> nat) list \<Rightarrow> 'f metrics \<Rightarrow> 'f metrics" where
  "add_disparate_impact ops tag favorable_counts_df metrics_dict =
     (case favorable_counts_df of
        [(g0, count0, fav0, unfav0), (g1, count1, fav1, unfav1)] \<Rightarrow>
          (let unpriv_ratio =
                 true_divide ops (of_int64 ops (int fav0)) (of_int64 ops (int count0));
               priv_ratio =
                 true_divide ops (of_int64 ops (int fav1)) (of_int64 ops (int count1));
               disparate_impact = true_divide ops unpriv_ratio priv_ratio
           in metrics_dict
                (''disparate_impact_'' @ tag \<mapsto> VFloat disparate_impact,
                 ''unpriv_ratio_'' @ tag \<mapsto> VFloat unpriv_ratio,
                 ''priv_ratio_'' @ tag \<mapsto> VFloat priv_ratio,
                 ''priv_n_'' @ tag \<mapsto> VInt (int count1),
                 ''unpriv_n_'' @ tag \<mapsto> VInt (int count0)))
      | _ \<Rightarrow> metrics_dict)"

definition compute_disparate_impact ::
  "'f float_ops \<Rightarrow> 'f metrics \<Rightarrow> int list \<Rightarrow> int list \<Rightarrow> int list \<Rightarrow> pyerr + 'f metrics" where
  "compute_disparate_impact ops metrics_dict preds in_group_labels_08 in_group_labels_06 =
     and_then (results_frame preds in_group_labels_08 in_group_labels_06) (\<lambda>df.
       Inr (add_disparate_impact ops ''0.6'' (groupby_agg (is_aae_06 df) (pred df))
             (add_disparate_impact ops ''0.8'' (groupby_agg (is_aae_08 df) (pred df))
                metrics_dict)))"

text \<open>
  A Python call of \<open>compute_disparate_impact\<close> with positional arguments. The function
  is declared with four parameters and no defaults, so a call with any other number of
  arguments raises TypeError before the body runs. (A call with four arguments of other
  types is not needed below; it is reported as TypeError as well.)
\<close>

datatype 'f pyobj = ODict "'f metrics" | OInts "int list" | OFloats2 "'f list list"

definition call_compute_disparate_impact ::
  "'f float_ops \<Rightarrow> 'f pyobj list \<Rightarrow> pyerr + 'f metrics" where
  "call_compute_disparate_impact ops args =
     (case args of
        [ODict metrics_dict, OInts preds, OInts g08, OInts g06] \<Rightarrow>
          compute_disparate_impact ops metrics_dict preds g08 g06
      | _ \<Rightarrow> Inl TypeError)"

text \<open>
  \<open>compute_metrics\<close> passes six arguments:
  \<open>compute_disparate_impact(metrics_dict, preds, labels, pred_probs,
  in_group_labels_08, in_group_labels_06)\<close>.
\<close>

definition compute_metrics ::
  "'f float_ops \<Rightarrow> 'f sklearn_metrics \<Rightarrow> int list \<Rightarrow> int list \<Rightarrow> 'f list list
     \<Rightarrow> int list \<Rightarrow> int list \<Rightarrow> pyerr + 'f metrics" where
  "compute_metrics ops sk preds labels pred_probs in_group_labels_08 in_group_labels_06 =
     (if length preds \<noteq> length labels then Inl AssertionError
      else and_then (acc_and_f1 ops sk preds labels pred_probs) (\<lambda>metrics_dict.
             call_compute_disparate_impact ops
               [ODict metrics_dict, OInts preds, OInts labels, OFloats2 pred_probs,
                OInts in_group_labels_08, OInts in_group_labels_06]))"

subsection \<open>The quantities the specification names\<close>





section \<open>loader/twitter.py\<close>

subsection \<open>Python lists, paths and number formatting\<close>

text \<open>\<open>xs[i]\<close>: a negative index counts from the end; IndexError outside the list.\<close>

definition py_getitem :: "'a list \<Rightarrow> int \<Rightarrow> pyerr + 'a" where
  "py_getitem xs i =
     (if 0 \<le> i \<and> i < int (length xs) then Inr (xs ! nat i)
      else if i < 0 \<and> - int (length xs) \<le> i then Inr (xs ! nat (int (length xs) + i))
      else Inl IndexError)"

text \<open>\<open>xs[:k]\<close>: the first \<open>k\<close> elements, or all but the last \<open>-k\<close> when \<open>k\<close> is negative.\<close>

definition py_slice_to :: "'a list \<Rightarrow> int \<Rightarrow> 'a list" where
  "py_slice_to xs k = (if 0 \<le> k then take (nat k) xs else take (nat (int (length xs) + k)) xs)"

text \<open>\<open>os.path.join(a, b)\<close> on a POSIX system.\<close>

definition os_path_join :: "string \<Rightarrow> string \<Rightarrow> string" where
  "os_path_join a b =
     (if b \<noteq> [] \<and> hd b = CHR ''/'' then b
      else if a = [] \<or> last a = CHR ''/'' then a @ b
      else a @ ''/'' @ b)"

text \<open>\<open>'%s' % i\<close> for a natural number: its decimal digits.\<close>

function str_nat :: "nat \<Rightarrow> string" where
  "str_nat n =
     (if n < 10 then [''0123456789'' ! n]
      else str_nat (n div 10) @ [''0123456789'' ! (n mod 10)])"
  by pat_completeness auto
termination
  by (relation "measure id") auto

declare str_nat.simps [simp del]

text \<open>
  The files the loader can open: a path is mapped to the rows that \<open>csv.reader\<close> yields
  for the file, each row a list of cells.
\<close>

type_synonym filesystem = "string \<rightharpoonup> string list list"

subsection \<open>The processor and its collaborators\<close>

text \<open>The two attributes of \<open>configs\<close> that the processor reads.\<close>

record configs =
  cfg_data_dir :: string
  cfg_max_seq_length :: int

text \<open>The two methods of the tokenizer that the processor calls; tokens are strings.\<close>

record tokenizer_lib =
  tokenize :: "string \<Rightarrow> string list"
  convert_tokens_to_ids :: "string list \<Rightarrow> int list"

text \<open>
  Modelled from the spec: the class \<open>InputExample\<close> of \<open>loader/common.py\<close>, which is not
  among the sources. It carries the three attributes that \<open>_create_examples\<close> sets.
\<close>

record InputExample =
  guid :: string
  text_a :: string
  label :: "int option"

text \<open>The attributes that \<open>TwitterProcessor.__init__\<close> sets.\<close>

record TwitterProcessor =
  data_dir :: string
  label_groups :: "int list"
  tokenizer :: "tokenizer_lib option"
  max_seq_length :: int
  configs :: configs
  text_col :: int
  label_col :: int

definition init_TwitterProcessor ::
  "configs \<Rightarrow> int \<Rightarrow> int \<Rightarrow> tokenizer_lib option \<Rightarrow> TwitterProcessor" where
  "init_TwitterProcessor cfg feat_col lab_col tok =
     \<lparr>data_dir = cfg_data_dir cfg, label_groups = [0, 1], tokenizer = tok,
      max_seq_length = cfg_max_seq_length cfg, configs = cfg,
      text_col = feat_col, label_col = lab_col\<rparr>"

subsection \<open>Reading the examples\<close>

text \<open>
  The loop \<open>for i, row in enumerate(reader)\<close>, starting at index \<open>i\<close>. \<open>int(...)\<close> is
  the parameter \<open>py_int\<close>: \<open>None\<close> where Python raises ValueError. The text cell is
  read first, then the label cell; the first exception ends the loop.
\<close>

fun examples_from ::
  "(string \<Rightarrow> int option) \<Rightarrow> TwitterProcessor \<Rightarrow> string \<Rightarrow> nat \<Rightarrow> string list list
     \<Rightarrow> pyerr + InputExample list" where
  "examples_from py_int self split i [] = Inr []"
| "examples_from py_int self split i (row # rows) =
     and_then (py_getitem row (text_col self)) (\<lambda>text.
     and_then (py_getitem row (label_col self)) (\<lambda>cell.
       (case py_int cell of
          None \<Rightarrow> Inl ValueError
        | Some lab \<Rightarrow>
            and_then (examples_from py_int self split (Suc i) rows) (\<lambda>examples.
              Inr (\<lparr>guid = split @ ''-'' @ str_nat i, text_a = text, label = Some lab\<rparr>
                   # examples)))))"

text \<open>
  \<open>_create_examples\<close> (an Isabelle name cannot start with an underscore): open the file,
  skip the header with \<open>next(reader)\<close> (StopIteration on a file with no row), then run
  the loop.
\<close>

definition create_examples ::
  "(string \<Rightarrow> int option) \<Rightarrow> filesystem \<Rightarrow> TwitterProcessor \<Rightarrow> string \<Rightarrow> string
     \<Rightarrow> pyerr + InputExample list" where
  "create_examples py_int fs self dir split =
     (case fs (os_path_join dir (split @ ''.csv'')) of
        None \<Rightarrow> Inl FileNotFoundError
      | Some [] \<Rightarrow> Inl StopIteration
      | Some (header # rows) \<Rightarrow> examples_from py_int self split 0 rows)"

definition get_train_examples ::
  "(string \<Rightarrow> int option) \<Rightarrow> filesystem \<Rightarrow> TwitterProcessor \<Rightarrow> string
     \<Rightarrow> pyerr + InputExample list" where
  "get_train_examples py_int fs self dir = create_examples py_int fs self dir ''train''"

definition get_dev_examples ::
  "(string \<Rightarrow> int option) \<Rightarrow> filesystem \<Rightarrow> TwitterProcessor \<Rightarrow> string
     \<Rightarrow> pyerr + InputExample list" where
  "get_dev_examples py_int fs self dir = create_examples py_int fs self dir ''dev''"

definition get_test_examples ::
  "(string \<Rightarrow> int option) \<Rightarrow> filesystem \<Rightarrow> TwitterProcessor \<Rightarrow> string
     \<Rightarrow> pyerr + InputExample list" where
  "get_test_examples py_int fs self dir = create_examples py_int fs self dir ''test''"

subsection \<open>Features\<close>

text \<open>The dictionary \<open>{'text': input_ids, 'length': len(tokens)}\<close>; the tensor is the list
  of its entries.\<close>

record feature =
  text_field :: "int list"
  length_field :: nat

text \<open>
  The body of the loop of \<open>get_features\<close> for one example. The tokenizer may be
  \<open>None\<close> (the default of the constructor), and then the first call of a method of it
  raises AttributeError. \<open>[0] * k\<close> is the empty list for a negative \<open>k\<close>.
\<close>

definition example_features :: "TwitterProcessor \<Rightarrow> InputExample \<Rightarrow> pyerr + feature" where
  "example_features self example =
     (case tokenizer self of
        None \<Rightarrow> Inl AttributeError
      | Some tk \<Rightarrow>
          (let tokens = tokenize tk (text_a example);
               tokens = (if int (length tokens) > max_seq_length self - 2
                         then py_slice_to tokens (max_seq_length self - 2) else tokens);
               tokens = [''[CLS]''] @ tokens @ [''[SEP]''];
               input_ids = convert_tokens_to_ids tk tokens;
               padding = replicate (nat (max_seq_length self - int (length input_ids))) 0;
               input_ids = input_ids @ padding
           in Inr \<lparr>text_field = input_ids, length_field = length tokens\<rparr>))"

fun features_of :: "TwitterProcessor \<Rightarrow> InputExample list \<Rightarrow> pyerr + feature list" where
  "features_of self [] = Inr []"
| "features_of self (example # examples) =
     and_then (example_features self example) (\<lambda>f.
     and_then (features_of self examples) (\<lambda>features. Inr (f # features)))"

definition get_features ::
  "(string \<Rightarrow> int option) \<Rightarrow> filesystem \<Rightarrow> TwitterProcessor \<Rightarrow> string
     \<Rightarrow> pyerr + feature list" where
  "get_features py_int fs self split =
     and_then (create_examples py_int fs self (data_dir self) split) (features_of self)"

subsection \<open>The quantities the specification names\<close>

text \<open>
  The example that one row stands for: \<open>text_a\<close> from the text column, the guid
  \<open>split-i\<close>, the label the integer value of the label column; \<open>None\<close> when a cell is
  missing or the label is no integer.
\<close>

definition example_of_row ::
  "(string \<Rightarrow> int option) \<Rightarrow> TwitterProcessor \<Rightarrow> string \<Rightarrow> nat \<Rightarrow> string list
     \<Rightarrow> InputExample option" where
  "example_of_row py_int self split i row =
     (case py_getitem row (text_col self) of
        Inl e \<Rightarrow> None
      | Inr text \<Rightarrow>
          (case py_getitem row (label_col self) of
             Inl e \<Rightarrow> None
           | Inr cell \<Rightarrow>
               (case py_int cell of
                  None \<Rightarrow> None
                | Some lab \<Rightarrow>
                    Some \<lparr>guid = split @ ''-'' @ str_nat i, text_a = text, label = Some lab\<rparr>)))"

text \<open>
  The feature of one example as the specification describes it: the tokens cut to at most
  \<open>max_seq_length - 2\<close>, wrapped in \<open>[CLS]\<close> and \<open>[SEP]\<close>, converted to ids and padded
  with 0 on the right up to \<open>max_seq_length\<close>; the length counts the wrapped tokens.
\<close>

definition padded_feature :: "tokenizer_lib \<Rightarrow> int \<Rightarrow> InputExample \<Rightarrow> feature" where
  "padded_feature tk msl example =
     (let tokens = take (nat (msl - 2)) (tokenize tk (text_a example));
          wrapped = [''[CLS]''] @ tokens @ [''[SEP]''];
          ids = convert_tokens_to_ids tk wrapped
      in \<lparr>text_field = ids @ replicate (nat msl - length ids) 0,
          length_field = length tokens + 2\<rparr>)"

section \<open>utils.py: text vectorization\<close>

subsection \<open>The regular expressions of remove_punctuation_tweet\<close>

text \<open>
  Python's \<open>string.punctuation\<close>: the 32 ASCII punctuation characters in code order.
  The double quote, the apostrophe, the backslash and the backquote are written by their
  codes (0x22, 0x27, 0x5C, 0x60).
\<close>

definition string_punctuation :: string where
  "string_punctuation =
     ''!'' @ [CHR 0x22] @ ''#$%&'' @ [CHR 0x27] @ ''()*+,-./:;<=>?@['' @ [CHR 0x5C] @ '']^_''
       @ [CHR 0x60] @ ''{|}~''"

text \<open>
  The fragment of Python's \<open>re\<close> that the function uses: a pattern that is one literal
  character, possibly escaped, or one character set \<open>[...]\<close>. The pattern is first cut
  into tokens, a backslash taking the next character with it; a backslash at the end
  does not compile.
\<close>

definition ascii_alnum :: "char \<Rightarrow> bool" where
  "ascii_alnum c =
     (let n = (of_char c :: nat)
      in (48 \<le> n \<and> n \<le> 57) \<or> (65 \<le> n \<and> n \<le> 90) \<or> (97 \<le> n \<and> n \<le> 122))"

fun sre_tokens :: "string \<Rightarrow> string list option" where
  "sre_tokens [] = Some []"
| "sre_tokens [c] = (if c = CHR 0x5C then None else Some [[c]])"
| "sre_tokens (c # d # s) =
     (if c = CHR 0x5C then map_option ((#) [c, d]) (sre_tokens s)
      else map_option ((#) [c]) (sre_tokens (d # s)))"

text \<open>
  The character of a literal token: a plain character, or an escaped character that is
  neither a letter nor a digit (\<open>re\<close> gives letters and digits after a backslash meanings
  of their own, which this fragment leaves out).
\<close>

definition escape_code :: "string \<Rightarrow> char option" where
  "escape_code tok =
     (case tok of
        [c] \<Rightarrow> Some c
      | [b, c] \<Rightarrow> (if ascii_alnum c then None else Some c)
      | _ \<Rightarrow> None)"

text \<open>
  The items of a character set, as \<open>re\<close> parses them after the opening bracket: a
  closing bracket ends a set that is not empty; a character followed by \<open>-\<close> and
  another character is a range (rejected when it runs backwards); \<open>-\<close> before the
  closing bracket is a literal.
\<close>

datatype set_item = SetLiteral char | SetRange char char

fun parse_set :: "string list \<Rightarrow> set_item list \<Rightarrow> (set_item list \<times> string list) option" where
  "parse_set [] items = None"
| "parse_set (this # source) items =
     (if this = '']'' \<and> items \<noteq> [] then Some (items, source)
      else case escape_code this of
        None \<Rightarrow> None
      | Some code1 \<Rightarrow>
          (case source of
             [] \<Rightarrow> parse_set source (items @ [SetLiteral code1])
           | dash # rest \<Rightarrow>
               if dash \<noteq> ''-'' then parse_set source (items @ [SetLiteral code1])
               else (case rest of
                       [] \<Rightarrow> None
                     | that # rest' \<Rightarrow>
                         if that = '']'' then Some (items @ [SetLiteral code1, SetLiteral CHR ''-''], rest')
                         else (case escape_code that of
                                 None \<Rightarrow> None
                               | Some code2 \<Rightarrow>
                                   if (of_char code2 :: nat) < of_char code1 then None
                                   else parse_set rest' (items @ [SetRange code1 code2])))))"

fun item_matches :: "char \<Rightarrow> set_item \<Rightarrow> bool" where
  "item_matches c (SetLiteral d) = (c = d)"
| "item_matches c (SetRange lo hi) = ((of_char lo :: nat) \<le> of_char c \<and> (of_char c :: nat) \<le> of_char hi)"

text \<open>
  \<open>re.sub(pattern, "", text)\<close> for a pattern of the fragment: every character that the
  pattern matches is removed. \<open>None\<close> stands for a pattern outside the fragment or one
  that does not compile.
\<close>

definition re_sub_empty :: "string \<Rightarrow> string \<Rightarrow> string option" where
  "re_sub_empty pattern text =
     (case sre_tokens pattern of
        None \<Rightarrow> None
      | Some [] \<Rightarrow> None
      | Some (tok # toks) \<Rightarrow>
          if tok = ''['' then
            (let negate = (toks \<noteq> [] \<and> hd toks = ''^'');
                 toks = (if negate then tl toks else toks)
             in case parse_set toks [] of
                  None \<Rightarrow> None
                | Some (items, rest) \<Rightarrow>
                    if rest \<noteq> [] then None
                    else Some (filter (\<lambda>c. list_ex (item_matches c) items = negate) text))
          else if toks \<noteq> [] \<or> tok \<in> set (map (\<lambda>c. [c]) ''.^$*+?{}()|'') then None
          else (case escape_code tok of
                  None \<Rightarrow> None
                | Some code \<Rightarrow> Some (filter (\<lambda>c. c \<noteq> code) text)))"

subsection \<open>remove_punctuation_tweet and tfidf_vectorize\<close>

text \<open>
  \<open>punctuation_no_period = "[" + re.sub("\.", "", string.punctuation) + "]"\<close> and
  \<open>np.array([re.sub(punctuation_no_period, "", text) for text in text_array])\<close>.
\<close>

definition punctuation_no_period :: "string option" where
  "punctuation_no_period =
     map_option (\<lambda>s. ''['' @ s @ '']'') (re_sub_empty [CHR 0x5C, CHR ''.''] string_punctuation)"

definition remove_punctuation_tweet :: "string list \<Rightarrow> string list option" where
  "remove_punctuation_tweet text_array =
     (case punctuation_no_period of
        None \<Rightarrow> None
      | Some pattern \<Rightarrow> those (map (re_sub_empty pattern) text_array))"


text \<open>
  The scikit-learn objects of \<open>tfidf_vectorize\<close> are parameters: the configured
  vectorizer (\<open>fit_transform\<close> returns the fitted vectorizer and the matrix), the number
  of columns of a matrix, \<open>SelectKBest(f_classif, k)\<close> and the conversion to float32.
\<close>

record ('v, 's, 'm) text_lib =
  fit_transform :: "string list \<Rightarrow> 'v \<times> 'm"
  transform :: "'v \<Rightarrow> string list \<Rightarrow> 'm"
  n_columns :: "'m \<Rightarrow> int"
  select_fit :: "int \<Rightarrow> 'm \<Rightarrow> int list \<Rightarrow> 's"
  select_transform :: "'s \<Rightarrow> 'm \<Rightarrow> 'm"
  astype_float32 :: "'m \<Rightarrow> 'm"

definition tfidf_vectorize ::
  "('v, 's, 'm) text_lib \<Rightarrow> string list \<Rightarrow> int list \<Rightarrow> string list \<Rightarrow> string list \<Rightarrow> int
     \<Rightarrow> ('m \<times> 'm \<times> 'm) option" where
  "tfidf_vectorize lib train_texts train_labels val_texts test_texts top_k =
     (case remove_punctuation_tweet train_texts of None \<Rightarrow> None | Some train_texts \<Rightarrow>
     (case remove_punctuation_tweet val_texts of None \<Rightarrow> None | Some val_texts \<Rightarrow>
     (case remove_punctuation_tweet test_texts of None \<Rightarrow> None | Some test_texts \<Rightarrow>
        (let (vectorizer, x_train) = fit_transform lib train_texts;
             x_val = transform lib vectorizer val_texts;
             x_test = transform lib vectorizer test_texts;
             selector = select_fit lib (min top_k (n_columns lib x_train)) x_train train_labels
         in Some (astype_float32 lib (select_transform lib selector x_train),
                  astype_float32 lib (select_transform lib selector x_val),
                  astype_float32 lib (select_transform lib selector x_test))))))"

text \<open>The items of the character set that \<open>punctuation_no_period\<close> denotes.\<close>

definition punctuation_items :: "set_item list" where
  "punctuation_items = map SetLiteral (''!'' @ [CHR 0x22] @ ''#$%&'' @ [CHR 0x27] @ ''()*+'')
     @ [SetRange CHR '','' CHR ''/'']
     @ map SetLiteral ('':;<=>?@[]^_'' @ [CHR 0x60] @ ''{|}~'')"

section \<open>utils.py: plot_iterative_learning_curve\<close>

text \<open>
  The function works by side effects: it seeds the random generator, fits estimators,
  writes CSV files and prints. A run is the list of the calls it made, in order,
  together with its result.
\<close>

datatype effect =
    RandomSeed int
  | GridSearchFit
  | ToCsv string
  | SetParams string
  | Fit
  | Predict
  | Print

text \<open>
  The estimator and scikit-learn are parameters: \<open>GridSearchCV(...).fit\<close> (it returns the
  table \<open>cv_results_\<close>), the methods \<open>set_params\<close>, \<open>fit\<close> and \<open>predict\<close> of the
  estimator (each returns the estimator or the prediction, or raises) and
  \<open>accuracy_score\<close>.
\<close>

record ('c, 'x, 'y, 'v, 'f, 'r) learn_lib =
  grid_search_fit :: "'c \<Rightarrow> (string \<times> 'v list) list \<Rightarrow> 'x \<Rightarrow> 'y \<Rightarrow> pyerr + 'r"
  set_params :: "'c \<Rightarrow> string \<Rightarrow> 'v \<Rightarrow> pyerr + 'c"
  fit :: "'c \<Rightarrow> 'x \<Rightarrow> 'y \<Rightarrow> pyerr + 'c"
  predict :: "'c \<Rightarrow> 'x \<Rightarrow> pyerr + 'y"
  accuracy_score :: "'y \<Rightarrow> 'y \<Rightarrow> 'f"

type_synonym 'a traced = "effect list \<times> (pyerr + 'a)"

text \<open>\<open>call e r\<close> is one call with result \<open>r\<close>; \<open>then_traced\<close> runs the next statement
  after a call that did not raise.\<close>

definition call :: "effect \<Rightarrow> pyerr + 'a \<Rightarrow> 'a traced" where
  "call e r = ([e], r)"

definition then_traced :: "'a traced \<Rightarrow> ('a \<Rightarrow> 'b traced) \<Rightarrow> 'b traced" where
  "then_traced m f =
     (case m of
        (tr, Inl e) \<Rightarrow> (tr, Inl e)
      | (tr, Inr x) \<Rightarrow> (case f x of (tr', r) \<Rightarrow> (tr @ tr', r)))"

text \<open>
  The loop \<open>for value in list(params.values())[0]\<close>; the result is the frame \<open>d\<close>, one
  row per value with the parameter value, the training and the test accuracy.
\<close>

fun iterate_values ::
  "('c, 'x, 'y, 'v, 'f, 'r) learn_lib \<Rightarrow> 'c \<Rightarrow> string \<Rightarrow> 'v list \<Rightarrow> 'x \<Rightarrow> 'y \<Rightarrow> 'x \<Rightarrow> 'y
     \<Rightarrow> ('v \<times> 'f \<times> 'f) list traced" where
  "iterate_values lib clfObj name [] trgX trgY tstX tstY = ([], Inr [])"
| "iterate_values lib clfObj name (v # vs) trgX trgY tstX tstY =
     then_traced (call (SetParams name) (set_params lib clfObj name v)) (\<lambda>clfObj.
     then_traced (call Fit (fit lib clfObj trgX trgY)) (\<lambda>clfObj.
     then_traced (call Predict (predict lib clfObj trgX)) (\<lambda>pred.
     let train_acc = accuracy_score lib trgY pred in
     then_traced (call Fit (fit lib clfObj trgX trgY)) (\<lambda>clfObj.
     then_traced (call Predict (predict lib clfObj tstX)) (\<lambda>pred.
     let test_acc = accuracy_score lib tstY pred in
     then_traced (call Print (Inr ())) (\<lambda>u.
     then_traced (iterate_values lib clfObj name vs trgX trgY tstX tstY) (\<lambda>d.
       ([], Inr ((v, train_acc, test_acc) # d)))))))))"

text \<open>
  The bare \<open>raise\<close> of the guard has no exception to re-raise, which Python reports as
  RuntimeError. \<open>list(params.keys())[0]\<close> raises IndexError on an empty dictionary.
\<close>

definition plot_iterative_learning_curve ::
  "('c, 'x, 'y, 'v, 'f, 'r) learn_lib \<Rightarrow> 'c \<Rightarrow> 'x \<Rightarrow> 'y \<Rightarrow> 'x \<Rightarrow> 'y
     \<Rightarrow> (string \<times> 'v list) list \<Rightarrow> string option \<Rightarrow> string option
     \<Rightarrow> ('v \<times> 'f \<times> 'f) list traced" where
  "plot_iterative_learning_curve lib clfObj trgX trgY tstX tstY params model_name dataset_name =
     then_traced (call (RandomSeed 42) (Inr ())) (\<lambda>u.
     if model_name = None \<or> dataset_name = None then ([], Inl RuntimeError)
     else
       then_traced (call GridSearchFit (grid_search_fit lib clfObj params trgX trgY)) (\<lambda>regTable.
       then_traced (call (ToCsv (''./output/ITER_base_'' @ the model_name @ ''_''
                                  @ the dataset_name @ ''.csv'')) (Inr ())) (\<lambda>u.
       then_traced ([], case params of [] \<Rightarrow> Inl IndexError | p # ps \<Rightarrow> Inr p) (\<lambda>(name, vs).
       then_traced (iterate_values lib clfObj name vs trgX trgY tstX tstY) (\<lambda>d.
       then_traced (call (ToCsv (''./output/ITERtestSET_'' @ the model_name @ ''_''
                                  @ the dataset_name @ ''.csv'')) (Inr ())) (\<lambda>u.
         ([], Inr d)))))))"

text \<open>The calls that fit a model or write a file.\<close>

definition fits_or_writes :: "effect \<Rightarrow> bool" where
  "fits_or_writes e = (case e of GridSearchFit \<Rightarrow> True | Fit \<Rightarrow> True | ToCsv p \<Rightarrow> True | _ \<Rightarrow> False)"

section \<open>utils.py: get_middle_factors\<close>

text \<open>
  The function returns a pair of array elements on three of its paths and the integer 0
  on the last one. \<open>FPair a b\<close> is a pair of elements of an int64 array, and
  \<open>FFloatPair a b\<close> a pair of elements of a float64 array with the values \<open>a\<close> and \<open>b\<close>.
\<close>

datatype factors_result = FPair int int | FFloatPair int int | FScalar int

text \<open>
  \<open>range(start, stop, step)\<close> for a positive step (the step of the source is 1 or 2).
\<close>

function py_range :: "int \<Rightarrow> int \<Rightarrow> int \<Rightarrow> int list" where
  "py_range start stop step =
     (if 0 < step \<and> start < stop then start # py_range (start + step) stop step else [])"
  by pat_completeness auto
termination
  by (relation "measure (\<lambda>(start, stop, step). nat (stop - start))") auto

declare py_range.simps [simp del]

text \<open>
  \<open>reduce(list.__add__, xss)\<close> without an initial value: the concatenation, and
  TypeError on an empty sequence.
\<close>

definition reduce_list_add :: "'a list list \<Rightarrow> pyerr + 'a list" where
  "reduce_list_add xss = (if xss = [] then Inl TypeError else Inr (concat xss))"

text \<open>
  float64 arithmetic on the non-negative integers below \<open>2^64\<close>, as IEEE 754 fixes it.
  \<open>bit_length n\<close> is the number of binary digits of a positive \<open>n\<close>, and \<open>isqrt n\<close> the
  integer square root of a non-negative \<open>n\<close>.
\<close>

function bit_length :: "int \<Rightarrow> nat" where
  "bit_length n = (if n \<le> 0 then 0 else Suc (bit_length (n div 2)))"
  by pat_completeness auto
termination
  by (relation "measure nat") auto

function isqrt :: "int \<Rightarrow> int" where
  "isqrt n = (if n \<le> 0 then 0
              else let r = 2 * isqrt (n div 4) in if (r + 1) * (r + 1) \<le> n then r + 1 else r)"
  by pat_completeness auto
termination
  by (relation "measure nat") auto

declare bit_length.simps [simp del]
declare isqrt.simps [simp del]

text \<open>
  The float64 value of a non-negative integer: the integer itself when it has at most 53
  bits, and otherwise the nearest multiple of \<open>2^e\<close>, where \<open>e\<close> is the number of bits
  beyond 53, a tie going to the even multiple.
\<close>

definition float64_of_int :: "int \<Rightarrow> int" where
  "float64_of_int n =
     (let e = bit_length n - 53;
          q = n div 2 ^ e;
          r = n mod 2 ^ e
      in if 2 ^ e < 2 * r \<or> (2 ^ e = 2 * r \<and> odd q) then (q + 1) * 2 ^ e else q * 2 ^ e)"

text \<open>
  \<open>int(np.sqrt(x))\<close> for a float64 \<open>x\<close> with a non-negative integer value: the
  correctly rounded root, truncated. With \<open>s\<close> the integer square root of \<open>x\<close>, the exact
  root lies in \<open>[s, s + 1)\<close>, and both ends are float64 values, so the rounded root
  truncates to \<open>s\<close> unless it is \<open>s + 1\<close>. For \<open>2^k \<le> s < 2^(k+1)\<close> the float64 values up
  to \<open>s + 1\<close> are \<open>2^(k-52)\<close> apart, so with \<open>t = 2^(53-k)\<close> the root rounds to \<open>s + 1\<close>
  when it is above \<open>s + 1 - 1/t\<close>, that is when \<open>((s + 1) * t - 1)^2 < x * t^2\<close> (the root
  of an integer is never the midpoint itself, which is not an integer).
\<close>

definition float64_sqrt_trunc :: "int \<Rightarrow> int" where
  "float64_sqrt_trunc x =
     (let s = isqrt x in
      if s = 0 then 0
      else let t = 2 ^ (54 - bit_length s)
           in if ((s + 1) * t - 1)\<^sup>2 < x * t\<^sup>2 then s + 1 else s)"

text \<open>
  The truncated root \<open>int(np.sqrt(n))\<close>. numpy turns the Python integer into an int64 or,
  from \<open>2^63\<close> on, a uint64 value; an integer that fits neither stays a Python object,
  and \<open>np.sqrt\<close> raises TypeError on it. The root of a negative number is NaN, and
  \<open>int(nan)\<close> raises ValueError. Otherwise the integer is converted to float64 and the
  root is taken there.
\<close>

definition int_np_sqrt :: "int \<Rightarrow> pyerr + int" where
  "int_np_sqrt n =
     (if n < - (2 ^ 63) \<or> 2 ^ 64 \<le> n then Inl TypeError
      else if n < 0 then Inl ValueError
      else Inr (float64_sqrt_trunc (float64_of_int n)))"

text \<open>
  \<open>set(...)\<close> followed by \<open>np.sort(list(...))\<close> is the sorted list without duplicates,
  held in an int64 array when every factor fits into int64 and in a float64 array
  otherwise (the factors are then below \<open>2^64\<close>, and numpy promotes int64 with uint64
  to float64). Rounding to float64 is monotone, so the entry at a position of the sorted
  float64 array is the rounded entry at that position of the sorted integers.
\<close>

definition fits_int64 :: "int \<Rightarrow> bool" where
  "fits_int64 x = (- (2 ^ 63) \<le> x \<and> x < 2 ^ 63)"

definition array_pair :: "int list \<Rightarrow> nat \<Rightarrow> nat \<Rightarrow> factors_result" where
  "array_pair factors i j =
     (if list_all fits_int64 factors then FPair (factors ! i) (factors ! j)
      else FFloatPair (float64_of_int (factors ! i)) (float64_of_int (factors ! j)))"

definition get_middle_factors :: "int \<Rightarrow> pyerr + factors_result" where
  "get_middle_factors n =
     (let step = (if n mod 2 \<noteq> 0 then 2 else 1) in
      and_then (int_np_sqrt n) (\<lambda>root.
      and_then (reduce_list_add
                 (map (\<lambda>i. [i, n div i])
                      (filter (\<lambda>i. n mod i = 0) (py_range 1 (root + 1) step)))) (\<lambda>pairs.
        let factors = sort (remdups pairs) in
        if length factors > 3 \<and> length factors mod 2 = 0 then
          (let mid = length factors div 2 in Inr (array_pair factors (mid - 1) mid))
        else if length factors > 2 \<and> length factors mod 2 \<noteq> 0 then
          (let mid = length factors div 2 in Inr (array_pair factors mid mid))
        else if length factors > 1 then Inr (array_pair factors 0 1)
        else Inr (FScalar 0))))"

text \<open>The positive divisors of \<open>n\<close> in ascending order.\<close>

definition sorted_divisors :: "int \<Rightarrow> int list" where
  "sorted_divisors n = filter (\<lambda>d. n mod d = 0) [1..n]"

section \<open>utils.py: glove_vectorize\<close>

subsection \<open>Keras: the TextVectorization layer\<close>

text \<open>
  The layer is built with \<open>max_tokens\<close>, \<open>output_sequence_length\<close> and the
  standardization \<open>'lower_and_strip_punctuation'\<close>. How a text is standardized and split
  into tokens, and how the tokens of the adapted texts are ranked by frequency, are
  parameters.
\<close>

record keras_text =
  standardize_split :: "string \<Rightarrow> string list"
  ranked_tokens :: "string list list \<Rightarrow> string list"

record TextVectorization =
  max_tokens :: nat
  output_sequence_length :: nat
  vocabulary :: "string list"

text \<open>
  \<open>vectorizer.adapt(text_ds)\<close>: the vocabulary is the padding token \<open>''\<close>, the
  out-of-vocabulary token \<open>'[UNK]'\<close> and the ranked tokens of the texts, cut to
  \<open>max_tokens\<close> entries in all.
\<close>

definition adapt :: "keras_text \<Rightarrow> nat \<Rightarrow> nat \<Rightarrow> string list \<Rightarrow> TextVectorization" where
  "adapt lib mt osl texts =
     \<lparr>max_tokens = mt, output_sequence_length = osl,
      vocabulary = take mt ([[], ''[UNK]''] @ ranked_tokens lib (map (standardize_split lib) texts))\<rparr>"

definition get_vocabulary :: "TextVectorization \<Rightarrow> string list" where
  "get_vocabulary vectorizer = vocabulary vectorizer"

text \<open>
  \<open>vectorizer(texts).numpy()\<close>: every text becomes the indices of its tokens in the
  vocabulary (1 for a token that is not in it), padded with 0 or cut to
  \<open>output_sequence_length\<close> entries.
\<close>

definition token_id :: "string list \<Rightarrow> string \<Rightarrow> int" where
  "token_id voc t = (if t \<in> set voc then int (length (takeWhile (\<lambda>w. w \<noteq> t) voc)) else 1)"

definition vectorizer_call :: "keras_text \<Rightarrow> TextVectorization \<Rightarrow> string list \<Rightarrow> int list list" where
  "vectorizer_call lib vectorizer texts =
     map (\<lambda>text.
            let ids = map (token_id (vocabulary vectorizer)) (standardize_split lib text)
            in take (output_sequence_length vectorizer) ids
                 @ replicate (output_sequence_length vectorizer - length ids) 0)
         texts"

text \<open>The arguments of the \<open>Embedding\<close> constructor; the initializer is the constant matrix.\<close>

record 'f embedding =
  input_dim :: nat
  output_dim :: nat
  embeddings_initializer :: "'f list list"
  trainable :: bool
  layer_name :: string

subsection \<open>Reading the GloVe file\<close>

text \<open>
  \<open>str.isspace\<close> on the characters below 256, and \<open>line.split(maxsplit=1)\<close>: the first
  run of characters that are not white space, and what follows the white space after
  it, if anything does.
\<close>

definition py_isspace :: "char \<Rightarrow> bool" where
  "py_isspace c =
     (let n = (of_char c :: nat)
      in (9 \<le> n \<and> n \<le> 13) \<or> (28 \<le> n \<and> n \<le> 32) \<or> n = 133 \<or> n = 160)"

definition split_maxsplit1 :: "string \<Rightarrow> string list" where
  "split_maxsplit1 line =
     (let s = dropWhile py_isspace line;
          word = takeWhile (\<lambda>c. \<not> py_isspace c) s;
          rest = dropWhile py_isspace (dropWhile (\<lambda>c. \<not> py_isspace c) s)
      in if word = [] then [] else if rest = [] then [word] else [word, rest])"

text \<open>\<open>word, coefs = ...\<close>: ValueError unless the list has exactly two elements.\<close>

definition unpack2 :: "'a list \<Rightarrow> pyerr + ('a \<times> 'a)" where
  "unpack2 xs = (case xs of [a, b] \<Rightarrow> Inr (a, b) | _ \<Rightarrow> Inl ValueError)"

text \<open>
  The loop over the lines of the file. \<open>np.fromstring(coefs, "f", sep=" ")\<close> is the
  parameter \<open>fromstring\<close>.
\<close>

fun read_glove ::
  "(string \<Rightarrow> 'f list) \<Rightarrow> string list \<Rightarrow> (string \<rightharpoonup> 'f list) \<Rightarrow> pyerr + (string \<rightharpoonup> 'f list)" where
  "read_glove fromstring [] embeddings_index = Inr embeddings_index"
| "read_glove fromstring (line # f) embeddings_index =
     and_then (unpack2 (split_maxsplit1 line)) (\<lambda>(word, coefs).
       read_glove fromstring f (embeddings_index(word \<mapsto> fromstring coefs)))"

subsection \<open>The embedding matrix\<close>

text \<open>
  A Python dictionary keeps its keys in the order of their first insertion; assigning to
  a key that is present replaces the value in place. \<open>word_index\<close> is
  \<open>dict(zip(voc, range(len(voc))))\<close>.
\<close>

fun dict_setitem :: "('k \<times> 'v) list \<Rightarrow> 'k \<Rightarrow> 'v \<Rightarrow> ('k \<times> 'v) list" where
  "dict_setitem [] k v = [(k, v)]"
| "dict_setitem ((k', v') # d) k v =
     (if k' = k then (k', v) # d else (k', v') # dict_setitem d k v)"

definition dict_of_pairs :: "('k \<times> 'v) list \<Rightarrow> ('k \<times> 'v) list" where
  "dict_of_pairs ps = foldl (\<lambda>d (k, v). dict_setitem d k v) [] ps"

definition word_index :: "string list \<Rightarrow> (string \<times> nat) list" where
  "word_index voc = dict_of_pairs (zip voc [0..<length voc])"

text \<open>
  \<open>embedding_matrix[i] = embedding_vector\<close>: numpy takes a vector of the length of the
  row, broadcasts a vector of length 1, and raises ValueError for any other length.
\<close>

definition np_set_row :: "'f list list \<Rightarrow> nat \<Rightarrow> 'f list \<Rightarrow> pyerr + 'f list list" where
  "np_set_row m i v =
     (if length m \<le> i then Inl IndexError
      else if length v = length (m ! i) then Inr (m[i := v])
      else if length v = 1 then Inr (m[i := replicate (length (m ! i)) (hd v)])
      else Inl ValueError)"

text \<open>The loop \<open>for word, i in word_index.items()\<close>.\<close>

fun fill_matrix ::
  "(string \<rightharpoonup> 'f list) \<Rightarrow> (string \<times> nat) list \<Rightarrow> 'f list list \<Rightarrow> pyerr + 'f list list" where
  "fill_matrix embeddings_index [] embedding_matrix = Inr embedding_matrix"
| "fill_matrix embeddings_index ((word, i) # items) embedding_matrix =
     (case embeddings_index word of
        Some embedding_vector \<Rightarrow>
          and_then (np_set_row embedding_matrix i embedding_vector)
            (fill_matrix embeddings_index items)
      | None \<Rightarrow> fill_matrix embeddings_index items embedding_matrix)"

subsection \<open>glove_vectorize\<close>

text \<open>
  \<open>files\<close> maps a path to the lines of the file; \<open>np.zeros\<close> is a matrix of
  \<open>fzero\<close>.
\<close>

definition glove_vectorize ::
  "'f float_ops \<Rightarrow> keras_text \<Rightarrow> (string \<Rightarrow> 'f list) \<Rightarrow> (string \<rightharpoonup> string list)
     \<Rightarrow> string list \<Rightarrow> string list \<Rightarrow> string list \<Rightarrow> string
     \<Rightarrow> pyerr + (int list list \<times> int list list \<times> int list list \<times> 'f embedding)" where
  "glove_vectorize ops lib fromstring files train_texts val_texts test_texts path_to_glove_file =
     (let vectorizer = adapt lib 20000 200 train_texts;
          voc = get_vocabulary vectorizer
      in case files path_to_glove_file of
           None \<Rightarrow> Inl FileNotFoundError
         | Some f \<Rightarrow>
             and_then (read_glove fromstring f Map.empty) (\<lambda>embeddings_index.
               let num_tokens = length voc + 2;
                   embedding_dim = 100;
                   zeros = replicate num_tokens (replicate embedding_dim (fzero ops))
               in and_then (fill_matrix embeddings_index (word_index voc) zeros)
                    (\<lambda>embedding_matrix.
                       Inr (vectorizer_call lib vectorizer train_texts,
                            vectorizer_call lib vectorizer val_texts,
                            vectorizer_call lib vectorizer test_texts,
                            \<lparr>input_dim = num_tokens, output_dim = embedding_dim,
                             embeddings_initializer = embedding_matrix, trainable = False,
                             layer_name = ''glove_embeddings''\<rparr>))))"

subsection \<open>The quantities the specification names\<close>

text \<open>
  A line of a GloVe file of dimension 100 holds a word and 100 coefficients. The vector
  of a word is the one on the last line that starts with the word.
\<close>

definition glove_line :: "(string \<Rightarrow> 'f list) \<Rightarrow> string \<Rightarrow> bool" where
  "glove_line fromstring line =
     (case split_maxsplit1 line of
        [word, coefs] \<Rightarrow> length (fromstring coefs) = 100
      | _ \<Rightarrow> False)"

definition glove_entry :: "(string \<Rightarrow> 'f list) \<Rightarrow> string \<Rightarrow> (string \<times> 'f list) list" where
  "glove_entry fromstring line =
     (case split_maxsplit1 line of
        [word, coefs] \<Rightarrow> [(word, fromstring coefs)]
      | _ \<Rightarrow> [])"

definition glove_vector :: "(string \<Rightarrow> 'f list) \<Rightarrow> string list \<Rightarrow> string \<Rightarrow> 'f list option" where
  "glove_vector fromstring f word = map_of (rev (concat (map (glove_entry fromstring) f))) word"

section \<open>Example instances\<close>

text \<open>
  A free interpretation of the float operations: every float is the expression that
  produced it, so an evaluated example shows which divisions the code performed.
  \<open>SLib\<close> names a value that a library call returned.
\<close>

datatype sym_float = SInt int | SDiv sym_float sym_float | SZero | SLib string

definition sym_ops :: "sym_float float_ops" where
  "sym_ops = \<lparr>of_int64 = SInt, true_divide = SDiv, fzero = SZero\<rparr>"

text \<open>
  Scoring functions that always succeed, except that the ROC-AUC score raises ValueError
  unless both classes occur among the labels (as scikit-learn does).
\<close>

definition sym_sk :: "sym_float sklearn_metrics" where
  "sym_sk =
     \<lparr>f1_score = (\<lambda>t p a. Inr (SLib ''f1'')),
      precision_score = (\<lambda>t p a. Inr (SLib ''precision'')),
      recall_score = (\<lambda>t p a. Inr (SLib ''recall'')),
      roc_auc_score =
        (\<lambda>t s. if 0 \<in> set t \<and> 1 \<in> set t then Inr (SLib ''auc'') else Inl ValueError)\<rparr>"

definition ex_probs :: "sym_float list list" where
  "ex_probs = [[SLib ''p00'', SLib ''p01''], [SLib ''p10'', SLib ''p11''],
               [SLib ''p20'', SLib ''p21''], [SLib ''p30'', SLib ''p31'']]"


text \<open>
  A label parser that knows the two labels, a tokenizer that splits at blanks, and a
  directory with two files; the label of the row of \<open>dev.csv\<close> is no integer.
\<close>

definition label_int :: "string \<Rightarrow> int option" where
  "label_int s = (if s = ''0'' then Some 0 else if s = ''1'' then Some 1 else None)"

fun words_from :: "string \<Rightarrow> string \<Rightarrow> string list" where
  "words_from cur [] = (if cur = [] then [] else [cur])"
| "words_from cur (c # s) =
     (if c = CHR '' '' then (if cur = [] then words_from [] s else cur # words_from [] s)
      else words_from (cur @ [c]) s)"

definition word_tokenizer :: tokenizer_lib where
  "word_tokenizer =
     \<lparr>tokenize = words_from [],
      convert_tokens_to_ids =
        map (\<lambda>t. if t = ''[CLS]'' then 101 else if t = ''[SEP]'' then 102
                  else 1000 + int (length t))\<rparr>"

definition ex_fs :: filesystem where
  "ex_fs = [''data/train.csv'' \<mapsto>
              [[''text'', ''label''], [''good day'', ''0''], [''a very bad day'', ''1'']],
            ''data/dev.csv'' \<mapsto> [[''text'', ''label''], [''fine'', ''no'']]]"

definition ex_processor :: "int \<Rightarrow> TwitterProcessor" where
  "ex_processor msl =
     init_TwitterProcessor \<lparr>cfg_data_dir = ''data'', cfg_max_seq_length = msl\<rparr> 0 1
       (Some word_tokenizer)"

text \<open>
  A library that hands the texts through unchanged, so that the result of
  \<open>tfidf_vectorize\<close> shows the texts that reach the vectorizer.
\<close>

definition echo_lib :: "(unit, unit, string list) text_lib" where
  "echo_lib =
     \<lparr>fit_transform = (\<lambda>texts. ((), texts)), transform = (\<lambda>v texts. texts),
      n_columns = (\<lambda>m. 0), select_fit = (\<lambda>k m labels. ()),
      select_transform = (\<lambda>s m. m), astype_float32 = (\<lambda>m. m)\<rparr>"

text \<open>An estimator whose state is the parameter value it was given last.\<close>

definition toy_lib :: "(int, unit, int, int, sym_float, unit) learn_lib" where
  "toy_lib =
     \<lparr>grid_search_fit = (\<lambda>c ps x y. Inr ()),
      set_params = (\<lambda>c name v. Inr v),
      fit = (\<lambda>c x y. Inr c),
      predict = (\<lambda>c x. Inr c),
      accuracy_score = (\<lambda>y p. SLib ''accuracy'')\<rparr>"

text \<open>
  A text library that splits at blanks and lists every token once, a \<open>fromstring\<close>
  that reads one value per field, and two GloVe files: one with 100 coefficients on a
  line and one with two.
\<close>

definition toy_keras :: keras_text where
  "toy_keras =
     \<lparr>standardize_split = words_from [], ranked_tokens = (\<lambda>docs. remdups (concat docs))\<rparr>"

definition sym_fromstring :: "string \<Rightarrow> sym_float list" where
  "sym_fromstring coefs = map SLib (words_from [] coefs)"

definition ex_glove :: "string \<rightharpoonup> string list" where
  "ex_glove =
     [''glove.100d.txt'' \<mapsto>
        [''day '' @ concat (replicate 100 ''1 ''), ''good '' @ concat (replicate 100 ''2 '')],
      ''glove.2d.txt'' \<mapsto> [''day 1 1'', ''good 2 2'']]"

section \<open>Results: accuracy metrics\<close>

lemma and_then_Inr_iff:
  "and_then m f = Inr y \<longleftrightarrow> (\<exists>x. m = Inr x \<and> f x = Inr y)"
  by (cases m) (simp_all add: and_then_def)

lemma and_then_Inr [simp]: "and_then (Inr x) f = f x"
  by (simp add: and_then_def)

lemma and_then_Inl [simp]: "and_then (Inl e) f = Inl e"
  by (simp add: and_then_def)

lemma agree_count:
  "length xs = length ys \<Longrightarrow>
   length (filter (\<lambda>(x, y). x = y) (zip xs ys)) = agreements xs ys"
proof (induction xs ys rule: list_induct2)
  case Nil
  then show ?case by (simp add: agreements_def)
next
  case (Cons x xs y ys)
  have "[0..<length (x # xs)] = 0 # map Suc [0..<length xs]"
    by (simp add: upt_conv_Cons map_Suc_upt del: upt_Suc)
  then show ?case using Cons
    by (simp add: agreements_def filter_map o_def del: upt_Suc)
qed

lemma simple_accuracy_eq:
  "length preds = length labels \<Longrightarrow>
   simple_accuracy ops preds labels =
     Inr (true_divide ops (of_int64 ops (int (agreements preds labels)))
                          (of_int64 ops (int (length preds))))"
  by (simp add: simple_accuracy_def np_equal_def np_mean_bool_def agree_count)

text \<open>
  C7. For equal-length arrays \<open>preds\<close> and \<open>labels\<close>, the \<open>'acc'\<close> entry of the
  dictionary that \<open>acc_and_f1\<close> returns is the value of
  \<open>simple_accuracy preds labels\<close>, and that value is the number of positions where
  the two arrays agree divided by the number of positions.
\<close>

theorem acc_and_f1_acc:
  assumes "length preds = length labels"
    and "acc_and_f1 ops sk preds labels pred_probs = Inr d"
  shows "\<exists>acc. simple_accuracy ops preds labels = Inr acc \<and>
           d ''acc'' = Some (VFloat acc) \<and>
           acc = true_divide ops (of_int64 ops (int (agreements preds labels)))
                                 (of_int64 ops (int (length preds)))"
proof -
  from assms(2) obtain acc where "simple_accuracy ops preds labels = Inr acc"
    and "d ''acc'' = Some (VFloat acc)"
    unfolding acc_and_f1_def and_then_Inr_iff by auto
  with simple_accuracy_eq[OF assms(1), of ops] show ?thesis by simp
qed

theorem acc_and_f1_acc_witness:
  "length [1, 0, 1, 1 :: int] = length [1, 1, 1, 0 :: int] \<and>
   (\<exists>d. acc_and_f1 sym_ops sym_sk [1, 0, 1, 1] [1, 1, 1, 0] ex_probs = Inr d \<and>
        simple_accuracy sym_ops [1, 0, 1, 1] [1, 1, 1, 0] = Inr (SDiv (SInt 2) (SInt 4)) \<and>
        d ''acc'' = Some (VFloat (SDiv (SInt 2) (SInt 4))))"
proof -
  have len: "length [1, 0, 1, 1 :: int] = length [1, 1, 1, 0 :: int]" by simp
  have "\<exists>d. acc_and_f1 sym_ops sym_sk [1, 0, 1, 1] [1, 1, 1, 0] ex_probs = Inr d"
    by (simp add: acc_and_f1_def simple_accuracy_def np_equal_def sym_sk_def try_roc_def
        np_column_def ex_probs_def)
  then obtain d where d: "acc_and_f1 sym_ops sym_sk [1, 0, 1, 1] [1, 1, 1, 0] ex_probs = Inr d" ..
  have ag: "agreements [1, 0, 1, 1] [1, 1, 1, 0] = 2"
    by (simp add: agreements_def upt_rec)
  from acc_and_f1_acc[OF len d] ag show ?thesis using d
    by (auto simp: sym_ops_def)
qed

lemma try_roc_caught:
  "np_column pred_probs 1 = Inr col \<Longrightarrow> roc_auc_score sk labels col = Inl ValueError \<Longrightarrow>
   try_roc ops sk labels pred_probs = Inr (fzero ops)"
  by (simp add: try_roc_def)

lemma try_roc_success:
  "np_column pred_probs 1 = Inr col \<Longrightarrow>
   try_roc ops (sk\<lparr>roc_auc_score := \<lambda>t s. Inr r\<rparr>) labels pred_probs = Inr r"
  by (simp add: try_roc_def)

text \<open>
  C8. Suppose the ROC-AUC computation is reached and raises ValueError: the column
  \<open>pred_probs[:, 1]\<close> exists and \<open>roc_auc_score\<close> raises ValueError on it. Let \<open>d'\<close>
  be the dictionary that \<open>acc_and_f1\<close> would have returned had the ROC computation
  succeeded with some value \<open>r\<close>. Then \<open>acc_and_f1\<close> still returns a dictionary with
  all eight keys, its \<open>'auc_roc'\<close> entry is \<open>0.0\<close>, and every other entry is the one
  of \<open>d'\<close>.
\<close>

theorem acc_and_f1_roc_value_error:
  assumes col: "np_column pred_probs 1 = Inr col"
    and roc: "roc_auc_score sk labels col = Inl ValueError"
    and ok: "acc_and_f1 ops (sk\<lparr>roc_auc_score := \<lambda>t s. Inr r\<rparr>) preds labels pred_probs
               = Inr d'"
  shows "\<exists>d. acc_and_f1 ops sk preds labels pred_probs = Inr d \<and>
           dom d = metric_keys \<and>
           d ''auc_roc'' = Some (VFloat (fzero ops)) \<and>
           d' ''auc_roc'' = Some (VFloat r) \<and>
           (\<forall>k. k \<noteq> ''auc_roc'' \<longrightarrow> d k = d' k)"
proof -
  from ok obtain acc f1 f1_w p rc p_w r_w where
    "simple_accuracy ops preds labels = Inr acc"
    "f1_score sk labels preds Binary = Inr f1"
    "f1_score sk labels preds Weighted = Inr f1_w"
    "precision_score sk labels preds Binary = Inr p"
    "recall_score sk labels preds Binary = Inr rc"
    "precision_score sk labels preds Weighted = Inr p_w"
    "recall_score sk labels preds Weighted = Inr r_w"
    and d': "d' = Map.empty
             (''acc'' \<mapsto> VFloat acc,
              ''f1'' \<mapsto> VFloat f1,
              ''precision'' \<mapsto> VFloat p,
              ''recall'' \<mapsto> VFloat rc,
              ''auc_roc'' \<mapsto> VFloat r,
              ''precision_weighted'' \<mapsto> VFloat p_w,
              ''recall_weighted'' \<mapsto> VFloat r_w,
              ''f1_weighted'' \<mapsto> VFloat f1_w)"
    unfolding acc_and_f1_def and_then_Inr_iff try_roc_success[OF col]
    by auto
  then have "acc_and_f1 ops sk preds labels pred_probs
               = Inr (d'(''auc_roc'' \<mapsto> VFloat (fzero ops)))"
    by (simp add: acc_and_f1_def try_roc_caught[OF col roc] fun_eq_iff)
  moreover have "dom (d'(''auc_roc'' \<mapsto> VFloat (fzero ops))) = metric_keys"
    unfolding d' metric_keys_def by (simp add: insert_commute)
  moreover have "d' ''auc_roc'' = Some (VFloat r)"
    unfolding d' by simp
  ultimately show ?thesis by simp
qed

theorem acc_and_f1_roc_value_error_witness:
  "np_column ex_probs 1 = Inr [SLib ''p01'', SLib ''p11'', SLib ''p21'', SLib ''p31''] \<and>
   roc_auc_score sym_sk [1, 1, 1, 1]
     [SLib ''p01'', SLib ''p11'', SLib ''p21'', SLib ''p31''] = Inl ValueError \<and>
   (\<exists>d. acc_and_f1 sym_ops sym_sk [1, 0, 1, 1] [1, 1, 1, 1] ex_probs = Inr d \<and>
        dom d = metric_keys \<and>
        d ''auc_roc'' = Some (VFloat SZero) \<and>
        d ''f1'' = Some (VFloat (SLib ''f1'')) \<and>
        d ''acc'' = Some (VFloat (SDiv (SInt 3) (SInt 4))))"
proof -
  have col: "np_column ex_probs 1 = Inr [SLib ''p01'', SLib ''p11'', SLib ''p21'', SLib ''p31'']"
    by (simp add: np_column_def ex_probs_def)
  have roc: "roc_auc_score sym_sk [1, 1, 1, 1]
      [SLib ''p01'', SLib ''p11'', SLib ''p21'', SLib ''p31''] = Inl ValueError"
    by (simp add: sym_sk_def)
  define d' where "d' = Map.empty
             (''acc'' \<mapsto> VFloat (SDiv (SInt 3) (SInt 4)),
              ''f1'' \<mapsto> VFloat (SLib ''f1''),
              ''precision'' \<mapsto> VFloat (SLib ''precision''),
              ''recall'' \<mapsto> VFloat (SLib ''recall''),
              ''auc_roc'' \<mapsto> VFloat (SLib ''auc''),
              ''precision_weighted'' \<mapsto> VFloat (SLib ''precision''),
              ''recall_weighted'' \<mapsto> VFloat (SLib ''recall''),
              ''f1_weighted'' \<mapsto> VFloat (SLib ''f1''))"
  have ok: "acc_and_f1 sym_ops (sym_sk\<lparr>roc_auc_score := \<lambda>t s. Inr (SLib ''auc'')\<rparr>)
              [1, 0, 1, 1] [1, 1, 1, 1] ex_probs = Inr d'"
    by (simp add: acc_and_f1_def simple_accuracy_def np_equal_def np_mean_bool_def sym_sk_def
        sym_ops_def try_roc_def np_column_def ex_probs_def d'_def)
  have d'v: "d' ''f1'' = Some (VFloat (SLib ''f1''))"
    "d' ''acc'' = Some (VFloat (SDiv (SInt 3) (SInt 4)))"
    by (simp_all add: d'_def)
  from acc_and_f1_roc_value_error[OF col roc ok] d'v col roc show ?thesis
    by (auto simp: sym_ops_def)
qed

section \<open>Results: disparate impact\<close>

















section \<open>Results: compute_metrics\<close>

lemma compute_metrics_never_returns:
  "compute_metrics ops sk preds labels pred_probs g08 g06 \<noteq> Inr d"
  by (cases "acc_and_f1 ops sk preds labels pred_probs")
    (simp_all add: compute_metrics_def call_compute_disparate_impact_def)

text \<open>
  C1. \<open>compute_metrics\<close> does not return the combined dictionary: its call of
  \<open>compute_disparate_impact\<close> passes six arguments to a function of four parameters,
  so every call that gets past the assertion and \<open>acc_and_f1\<close> raises TypeError. Here
  the arrays have equal lengths, all scores exist, and both indicators contain both
  values.
\<close>

theorem compute_metrics_raises_type_error:
  "compute_metrics sym_ops sym_sk [1, 0, 1, 1] [1, 1, 1, 0] ex_probs [0, 0, 1, 1] [0, 1, 0, 1]
     = Inl TypeError"
  by (simp add: compute_metrics_def call_compute_disparate_impact_def acc_and_f1_def
      simple_accuracy_def np_equal_def sym_sk_def try_roc_def np_column_def ex_probs_def)

section \<open>Results: loader/twitter.py\<close>

lemma examples_from_Cons_Inr:
  "examples_from py_int self split k (row # rows) = Inr exs \<longleftrightarrow>
     (\<exists>ex rest. example_of_row py_int self split k row = Some ex \<and>
        examples_from py_int self split (Suc k) rows = Inr rest \<and> exs = ex # rest)"
  by (auto simp: example_of_row_def and_then_Inr_iff split: sum.splits option.splits)

lemma examples_from_Inr_iff:
  "examples_from py_int self split k rows = Inr exs \<longleftrightarrow>
     length exs = length rows \<and>
     (\<forall>i<length rows. example_of_row py_int self split (k + i) (rows ! i) = Some (exs ! i))"
proof (induction rows arbitrary: k exs)
  case Nil
  then show ?case by auto
next
  case (Cons row rows)
  show ?case
  proof
    assume "examples_from py_int self split k (row # rows) = Inr exs"
    then obtain ex rest where ex: "example_of_row py_int self split k row = Some ex"
      and rest: "examples_from py_int self split (Suc k) rows = Inr rest" and exs: "exs = ex # rest"
      unfolding examples_from_Cons_Inr by blast
    from rest have "length rest = length rows"
      and r: "\<And>i. i < length rows \<Longrightarrow>
            example_of_row py_int self split (Suc k + i) (rows ! i) = Some (rest ! i)"
      unfolding Cons.IH by simp_all
    then show "length exs = length (row # rows) \<and>
      (\<forall>i<length (row # rows).
         example_of_row py_int self split (k + i) ((row # rows) ! i) = Some (exs ! i))"
      using ex exs by (auto simp: nth_Cons split: nat.splits)
  next
    assume a: "length exs = length (row # rows) \<and>
      (\<forall>i<length (row # rows).
         example_of_row py_int self split (k + i) ((row # rows) ! i) = Some (exs ! i))"
    then obtain ex rest where exs: "exs = ex # rest" and len: "length rest = length rows"
      by (auto simp: length_Suc_conv)
    from a have "example_of_row py_int self split k row = Some ex"
      unfolding exs by (auto dest: spec[of _ 0])
    moreover have "examples_from py_int self split (Suc k) rows = Inr rest"
      unfolding Cons.IH
    proof (intro conjI allI impI)
      show "length rest = length rows" by (rule len)
    next
      fix i assume "i < length rows"
      with a have "example_of_row py_int self split (k + Suc i) ((row # rows) ! Suc i)
                     = Some (exs ! Suc i)"
        by (metis Suc_less_eq length_Cons)
      then show "example_of_row py_int self split (Suc k + i) (rows ! i) = Some (rest ! i)"
        unfolding exs by simp
    qed
    ultimately show "examples_from py_int self split k (row # rows) = Inr exs"
      unfolding examples_from_Cons_Inr exs by blast
  qed
qed


text \<open>
  C4. When the file \<open><split>.csv\<close> of \<open>data_dir\<close> exists and starts with a header row,
  \<open>_create_examples\<close> skips that row and returns a list \<open>exs\<close> exactly when \<open>exs\<close> has one
  example per remaining row, in file order, the example of row \<open>i\<close> (counted from 0)
  having \<open>text_a\<close> from the text column, the guid \<open><split>-<i>\<close> and the integer value of
  the label column as label. It returns whenever every row has both cells and an integer
  label, and it fails whenever the label cell of some row does not parse as an integer.
  \<open>get_train_examples\<close>, \<open>get_dev_examples\<close> and \<open>get_test_examples\<close> are
  \<open>_create_examples\<close> on the splits \<open>train\<close>, \<open>dev\<close> and \<open>test\<close>.
\<close>

theorem create_examples_spec:
  assumes csv: "fs (os_path_join dir (split @ ''.csv'')) = Some (header # rows)"
  shows "(create_examples py_int fs self dir split = Inr exs \<longleftrightarrow>
            length exs = length rows \<and>
            (\<forall>i<length rows. example_of_row py_int self split i (rows ! i) = Some (exs ! i))) \<and>
         ((\<forall>i<length rows. example_of_row py_int self split i (rows ! i) \<noteq> None) \<longrightarrow>
            (\<exists>examples. create_examples py_int fs self dir split = Inr examples)) \<and>
         ((\<exists>r\<in>set rows. \<exists>cell. py_getitem r (label_col self) = Inr cell \<and> py_int cell = None) \<longrightarrow>
            (\<exists>e. create_examples py_int fs self dir split = Inl e)) \<and>
         get_train_examples py_int fs self dir = create_examples py_int fs self dir ''train'' \<and>
         get_dev_examples py_int fs self dir = create_examples py_int fs self dir ''dev'' \<and>
         get_test_examples py_int fs self dir = create_examples py_int fs self dir ''test''"
proof -
  have ce: "create_examples py_int fs self dir split = examples_from py_int self split 0 rows"
    by (simp add: create_examples_def csv)
  have iff: "create_examples py_int fs self dir split = Inr xs \<longleftrightarrow>
            length xs = length rows \<and>
            (\<forall>i<length rows. example_of_row py_int self split i (rows ! i) = Some (xs ! i))" for xs
    unfolding ce examples_from_Inr_iff by simp
  have ok: "\<exists>examples. create_examples py_int fs self dir split = Inr examples"
    if all: "\<forall>i<length rows. example_of_row py_int self split i (rows ! i) \<noteq> None"
  proof -
    let ?xs = "map (\<lambda>i. the (example_of_row py_int self split i (rows ! i))) [0..<length rows]"
    have "create_examples py_int fs self dir split = Inr ?xs"
      unfolding iff using all by auto
    then show ?thesis ..
  qed
  have bad: "\<exists>e. create_examples py_int fs self dir split = Inl e"
    if "\<exists>r\<in>set rows. \<exists>cell. py_getitem r (label_col self) = Inr cell \<and> py_int cell = None"
  proof -
    from that obtain j cell where j: "j < length rows"
      and c: "py_getitem (rows ! j) (label_col self) = Inr cell" "py_int cell = None"
      by (auto simp: in_set_conv_nth)
    then have none: "example_of_row py_int self split j (rows ! j) = None"
      by (simp add: example_of_row_def split: sum.splits)
    show ?thesis
    proof (cases "create_examples py_int fs self dir split")
      case (Inl e)
      then show ?thesis by blast
    next
      case (Inr xs)
      then have "example_of_row py_int self split j (rows ! j) = Some (xs ! j)"
        unfolding iff using j by blast
      with none show ?thesis by simp
    qed
  qed
  from iff[of exs] ok bad show ?thesis
    by (simp add: get_train_examples_def get_dev_examples_def get_test_examples_def)
qed


lemma str_nat_digits: "str_nat 0 = ''0''" "str_nat (Suc 0) = ''1''"
  by (subst str_nat.simps, simp)+

theorem create_examples_spec_witness:
  "ex_fs (os_path_join ''data'' (''train'' @ ''.csv'')) =
     Some ([''text'', ''label''] # [[''good day'', ''0''], [''a very bad day'', ''1'']]) \<and>
   create_examples label_int ex_fs (ex_processor 8) ''data'' ''train'' =
     Inr [\<lparr>guid = ''train-0'', text_a = ''good day'', label = Some 0\<rparr>,
          \<lparr>guid = ''train-1'', text_a = ''a very bad day'', label = Some 1\<rparr>] \<and>
   get_train_examples label_int ex_fs (ex_processor 8) ''data'' =
     Inr [\<lparr>guid = ''train-0'', text_a = ''good day'', label = Some 0\<rparr>,
          \<lparr>guid = ''train-1'', text_a = ''a very bad day'', label = Some 1\<rparr>] \<and>
   ex_fs (os_path_join ''data'' (''dev'' @ ''.csv'')) =
     Some ([''text'', ''label''] # [[''fine'', ''no'']]) \<and>
   py_getitem [''fine'', ''no''] (label_col (ex_processor 8)) = Inr ''no'' \<and>
   label_int ''no'' = None \<and>
   (\<exists>e. create_examples label_int ex_fs (ex_processor 8) ''data'' ''dev'' = Inl e)"
proof -
  have train: "ex_fs (os_path_join ''data'' (''train'' @ ''.csv'')) =
     Some ([''text'', ''label''] # [[''good day'', ''0''], [''a very bad day'', ''1'']])"
    by (simp add: ex_fs_def os_path_join_def)
  have dev: "ex_fs (os_path_join ''data'' (''dev'' @ ''.csv'')) =
     Some ([''text'', ''label''] # [[''fine'', ''no'']])"
    by (simp add: ex_fs_def os_path_join_def)
  have cell: "py_getitem [''fine'', ''no''] (label_col (ex_processor 8)) = Inr ''no''"
    "label_int ''no'' = None"
    by (simp_all add: py_getitem_def ex_processor_def init_TwitterProcessor_def label_int_def)
  have rows: "example_of_row label_int (ex_processor 8) ''train'' 0 [''good day'', ''0''] =
      Some \<lparr>guid = ''train-0'', text_a = ''good day'', label = Some 0\<rparr>"
    "example_of_row label_int (ex_processor 8) ''train'' 1 [''a very bad day'', ''1''] =
      Some \<lparr>guid = ''train-1'', text_a = ''a very bad day'', label = Some 1\<rparr>"
    by (simp_all add: example_of_row_def py_getitem_def ex_processor_def
        init_TwitterProcessor_def label_int_def str_nat_digits)
  have all: "\<forall>i<length [[''good day'', ''0''], [''a very bad day'', ''1'']].
      example_of_row label_int (ex_processor 8) ''train'' i
        ([[''good day'', ''0''], [''a very bad day'', ''1'']] ! i) =
      Some ([\<lparr>guid = ''train-0'', text_a = ''good day'', label = Some 0\<rparr>,
             \<lparr>guid = ''train-1'', text_a = ''a very bad day'', label = Some 1\<rparr>] ! i)"
    using rows by (auto simp: less_Suc_eq numeral_2_eq_2)
  note t = create_examples_spec[where fs = ex_fs and dir = "''data''" and split = "''train''"
      and header = "[''text'', ''label'']"
      and rows = "[[''good day'', ''0''], [''a very bad day'', ''1'']]"
      and py_int = label_int and self = "ex_processor 8"
      and exs = "[\<lparr>guid = ''train-0'', text_a = ''good day'', label = Some 0\<rparr>,
        \<lparr>guid = ''train-1'', text_a = ''a very bad day'', label = Some 1\<rparr>]", OF train]
  have a: "create_examples label_int ex_fs (ex_processor 8) ''data'' ''train'' =
     Inr [\<lparr>guid = ''train-0'', text_a = ''good day'', label = Some 0\<rparr>,
          \<lparr>guid = ''train-1'', text_a = ''a very bad day'', label = Some 1\<rparr>]"
    using t all by simp
  have b: "get_train_examples label_int ex_fs (ex_processor 8) ''data'' =
     Inr [\<lparr>guid = ''train-0'', text_a = ''good day'', label = Some 0\<rparr>,
          \<lparr>guid = ''train-1'', text_a = ''a very bad day'', label = Some 1\<rparr>]"
    using t a by simp
  have c: "\<exists>e. create_examples label_int ex_fs (ex_processor 8) ''data'' ''dev'' = Inl e"
    using create_examples_spec[where fs = ex_fs and dir = "''data''" and split = "''dev''"
      and header = "[''text'', ''label'']" and rows = "[[''fine'', ''no'']]"
      and py_int = label_int and self = "ex_processor 8", OF dev] cell by simp
  from train dev cell a b c show ?thesis by simp
qed

lemma example_features_eq:
  assumes msl: "2 \<le> max_seq_length self" and tk: "tokenizer self = Some tk"
  shows "example_features self example = Inr (padded_feature tk (max_seq_length self) example)"
proof -
  let ?toks = "tokenize tk (text_a example)"
  have "(if int (length ?toks) > max_seq_length self - 2
         then py_slice_to ?toks (max_seq_length self - 2) else ?toks)
        = take (nat (max_seq_length self - 2)) ?toks"
    using msl by (auto simp: py_slice_to_def)
  moreover have "nat (max_seq_length self - int n) = nat (max_seq_length self) - n" for n
    by simp
  ultimately show ?thesis
    by (simp add: example_features_def tk padded_feature_def Let_def)
qed

lemma features_of_eq:
  assumes msl: "2 \<le> max_seq_length self" and tk: "tokenizer self = Some tk"
  shows "features_of self examples = Inr (map (padded_feature tk (max_seq_length self)) examples)"
  by (induction examples) (simp_all add: example_features_eq[OF msl tk])

text \<open>
  Where the code keeps to its docstring: with a \<open>max_seq_length\<close> of at least 2, a
  tokenizer, and a \<open>convert_tokens_to_ids\<close> that returns one id per token,
  \<open>get_features\<close> returns one feature per example of a split that can be read: the
  tokenizer output cut to at most \<open>max_seq_length - 2\<close> tokens, wrapped as
  \<open>["[CLS]"] + tokens + ["[SEP]"]\<close>, converted to ids and padded with 0 on the right. The
  \<open>'text'\<close> tensor has length exactly \<open>max_seq_length\<close>, and \<open>'length'\<close> is the number of
  tokens including \<open>[CLS]\<close> and \<open>[SEP]\<close>, at most \<open>max_seq_length\<close>.
\<close>

lemma get_features_from_two:
  assumes msl: "2 \<le> max_seq_length self"
    and tk: "tokenizer self = Some tk"
    and conv: "\<forall>ts. length (convert_tokens_to_ids tk ts) = length ts"
    and exs: "create_examples py_int fs self (data_dir self) split = Inr examples"
  shows "get_features py_int fs self split =
           Inr (map (padded_feature tk (max_seq_length self)) examples) \<and>
         (\<forall>example\<in>set examples.
            int (length (text_field (padded_feature tk (max_seq_length self) example)))
              = max_seq_length self \<and>
            length_field (padded_feature tk (max_seq_length self) example)
              = min (length (tokenize tk (text_a example))) (nat (max_seq_length self - 2)) + 2 \<and>
            int (length_field (padded_feature tk (max_seq_length self) example))
              \<le> max_seq_length self)"
proof -
  have "get_features py_int fs self split =
           Inr (map (padded_feature tk (max_seq_length self)) examples)"
    by (simp add: get_features_def exs features_of_eq[OF msl tk])
  moreover have "int (length (text_field (padded_feature tk (max_seq_length self) example)))
              = max_seq_length self \<and>
            length_field (padded_feature tk (max_seq_length self) example)
              = min (length (tokenize tk (text_a example))) (nat (max_seq_length self - 2)) + 2 \<and>
            int (length_field (padded_feature tk (max_seq_length self) example))
              \<le> max_seq_length self" for example
    using msl conv by (auto simp: padded_feature_def Let_def min_def)
  ultimately show ?thesis by blast
qed


text \<open>
  C3. The docstring of \<open>get_features\<close> promises a \<open>'text'\<close> tensor of length
  \<open>configs.max_seq_length\<close>, truncated or padded to match this length, for every
  example. The code breaks the promise when \<open>max_seq_length\<close> is below 2: the bound of the
  slice \<open>tokens[:(max_seq_length - 2)]\<close> is then negative, and the two special tokens
  are added all the same. With \<open>max_seq_length = 1\<close> the slice \<open>tokens[:-1]\<close> drops the
  last token only, and the two examples of the split get tensors of 3 and 5 entries, with
  the lengths 3 and 5, where the tensor should have one entry and the length should be at
  most 1.
\<close>

theorem get_features_short_max_seq_length:
  "max_seq_length (ex_processor 1) = 1 \<and>
   get_features label_int ex_fs (ex_processor 1) ''train'' =
     Inr [\<lparr>text_field = [101, 1004, 102], length_field = 3\<rparr>,
          \<lparr>text_field = [101, 1001, 1004, 1003, 102], length_field = 5\<rparr>]"
  by (simp add: get_features_def create_examples_def ex_fs_def os_path_join_def
      ex_processor_def init_TwitterProcessor_def py_getitem_def label_int_def
      example_features_def word_tokenizer_def py_slice_to_def Let_def)

text \<open>The same split with \<open>max_seq_length = 5\<close>: one example is padded, the other cut.\<close>

lemma get_features_from_two_example:
  "2 \<le> max_seq_length (ex_processor 5) \<and>
   tokenizer (ex_processor 5) = Some word_tokenizer \<and>
   (\<forall>ts. length (convert_tokens_to_ids word_tokenizer ts) = length ts) \<and>
   create_examples label_int ex_fs (ex_processor 5) (data_dir (ex_processor 5)) ''train'' =
     Inr [\<lparr>guid = ''train-0'', text_a = ''good day'', label = Some 0\<rparr>,
          \<lparr>guid = ''train-1'', text_a = ''a very bad day'', label = Some 1\<rparr>] \<and>
   get_features label_int ex_fs (ex_processor 5) ''train'' =
     Inr [\<lparr>text_field = [101, 1004, 1003, 102, 0], length_field = 4\<rparr>,
          \<lparr>text_field = [101, 1001, 1004, 1003, 102], length_field = 5\<rparr>]"
proof -
  have msl: "2 \<le> max_seq_length (ex_processor 5)"
    and tk: "tokenizer (ex_processor 5) = Some word_tokenizer"
    by (simp_all add: ex_processor_def init_TwitterProcessor_def)
  have conv: "\<forall>ts. length (convert_tokens_to_ids word_tokenizer ts) = length ts"
    by (simp add: word_tokenizer_def)
  have exs: "create_examples label_int ex_fs (ex_processor 5) (data_dir (ex_processor 5)) ''train'' =
     Inr [\<lparr>guid = ''train-0'', text_a = ''good day'', label = Some 0\<rparr>,
          \<lparr>guid = ''train-1'', text_a = ''a very bad day'', label = Some 1\<rparr>]"
    by (simp add: create_examples_def ex_fs_def os_path_join_def ex_processor_def
        init_TwitterProcessor_def py_getitem_def label_int_def str_nat_digits)
  have pf: "padded_feature word_tokenizer 5 \<lparr>guid = ''train-0'', text_a = ''good day'', label = Some 0\<rparr>
      = \<lparr>text_field = [101, 1004, 1003, 102, 0], length_field = 4\<rparr>"
    "padded_feature word_tokenizer 5
        \<lparr>guid = ''train-1'', text_a = ''a very bad day'', label = Some 1\<rparr>
      = \<lparr>text_field = [101, 1001, 1004, 1003, 102], length_field = 5\<rparr>"
    by (simp_all add: padded_feature_def word_tokenizer_def Let_def)
  have m5: "max_seq_length (ex_processor 5) = 5"
    by (simp add: ex_processor_def init_TwitterProcessor_def)
  from get_features_from_two[where self = "ex_processor 5" and tk = word_tokenizer
      and py_int = label_int and fs = ex_fs and split = "''train''", OF msl tk conv exs]
  have "get_features label_int ex_fs (ex_processor 5) ''train'' =
     Inr [\<lparr>text_field = [101, 1004, 1003, 102, 0], length_field = 4\<rparr>,
          \<lparr>text_field = [101, 1001, 1004, 1003, 102], length_field = 5\<rparr>]"
    unfolding m5 by (simp add: pf)
  with msl tk conv exs show ?thesis by simp
qed

section \<open>Results: text vectorization\<close>

lemma punctuation_pattern:
  "punctuation_no_period =
     Some (''[!'' @ [CHR 0x22] @ ''#$%&'' @ [CHR 0x27] @ ''()*+,-/:;<=>?@['' @ [CHR 0x5C] @ '']^_''
       @ [CHR 0x60] @ ''{|}~]'')"
  by (simp add: punctuation_no_period_def re_sub_empty_def string_punctuation_def
      escape_code_def ascii_alnum_def)

text \<open>
  C5. \<open>tfidf_vectorize\<close> does not keep the periods: in the character set the pattern
  \<open>,-/\<close> is a range that contains the period, and \<open>\]\<close> is an escaped bracket, so
  the backslash is not in the set. The texts lose their periods and keep their
  backslashes.
\<close>

theorem remove_punctuation_removes_periods:
  "remove_punctuation_tweet [''Mr. Smith, a.k.a. #1! c:'' @ [CHR 0x5C] @ ''tmp''] =
     Some [''Mr Smith aka 1 c'' @ [CHR 0x5C] @ ''tmp''] \<and>
   tfidf_vectorize echo_lib [''a.b.''] [1] [''c.''] [''d. e!''] 20000 =
     Some ([''ab''], [''c''], [''d e''])"
  by code_simp

lemma re_sub_punctuation:
  "re_sub_empty (''[!'' @ [CHR 0x22] @ ''#$%&'' @ [CHR 0x27] @ ''()*+,-/:;<=>?@['' @ [CHR 0x5C] @ '']^_''
       @ [CHR 0x60] @ ''{|}~]'') text
   = Some (filter (\<lambda>c. \<not> list_ex (item_matches c) punctuation_items) text)"
  by (simp add: re_sub_empty_def escape_code_def ascii_alnum_def punctuation_items_def)

lemma char_codes:
  "(of_char CHR '','' :: nat) = 44" "(of_char CHR ''-'' :: nat) = 45"
  "(of_char CHR ''.'' :: nat) = 46" "(of_char CHR ''/'' :: nat) = 47"
  by simp_all

lemma range_comma_slash:
  "(of_char CHR '','' :: nat) \<le> of_char c \<and> (of_char c :: nat) \<le> of_char CHR ''/'' \<longleftrightarrow>
     c \<in> {CHR '','', CHR ''-'', CHR ''.'', CHR ''/''}"
proof
  assume "(of_char CHR '','' :: nat) \<le> of_char c \<and> (of_char c :: nat) \<le> of_char CHR ''/''"
  then have "(44::nat) \<le> of_char c \<and> (of_char c :: nat) \<le> 47"
    unfolding char_codes .
  then have "(of_char c :: nat) = 44 \<or> (of_char c :: nat) = 45 \<or> (of_char c :: nat) = 46
      \<or> (of_char c :: nat) = 47"
    by linarith
  then have "(of_char c :: nat) = of_char CHR '','' \<or> (of_char c :: nat) = of_char CHR ''-''
      \<or> (of_char c :: nat) = of_char CHR ''.'' \<or> (of_char c :: nat) = of_char CHR ''/''"
    unfolding char_codes .
  then show "c \<in> {CHR '','', CHR ''-'', CHR ''.'', CHR ''/''}"
    by (blast dest: of_char_eqI)
next
  assume "c \<in> {CHR '','', CHR ''-'', CHR ''.'', CHR ''/''}"
  then have "c = CHR '','' \<or> c = CHR ''-'' \<or> c = CHR ''.'' \<or> c = CHR ''/''" by blast
  then show "(of_char CHR '','' :: nat) \<le> of_char c \<and> (of_char c :: nat) \<le> of_char CHR ''/''"
    unfolding char_codes by (elim disjE) (simp_all only: char_codes, simp_all)
qed

lemma list_ex_literals: "list_ex (item_matches c) (map SetLiteral cs) \<longleftrightarrow> c \<in> set cs"
  by (induction cs) auto

lemma punctuation_items_match:
  "list_ex (item_matches c) punctuation_items \<longleftrightarrow>
     c \<in> set string_punctuation \<and> c \<noteq> CHR 0x5C"
proof -
  have "list_ex (item_matches c) punctuation_items \<longleftrightarrow>
      c \<in> set (''!'' @ [CHR 0x22] @ ''#$%&'' @ [CHR 0x27] @ ''()*+'') \<or>
      c \<in> {CHR '','', CHR ''-'', CHR ''.'', CHR ''/''} \<or>
      c \<in> set ('':;<=>?@[]^_'' @ [CHR 0x60] @ ''{|}~'')"
    unfolding punctuation_items_def list_ex_append list_ex_literals
    using range_comma_slash[of c] by simp
  also have "\<dots> \<longleftrightarrow> c \<in> set (''!'' @ [CHR 0x22] @ ''#$%&'' @ [CHR 0x27] @ ''()*+'') \<union>
      {CHR '','', CHR ''-'', CHR ''.'', CHR ''/''} \<union>
      set ('':;<=>?@[]^_'' @ [CHR 0x60] @ ''{|}~'')"
    by blast
  also have "set (''!'' @ [CHR 0x22] @ ''#$%&'' @ [CHR 0x27] @ ''()*+'') \<union>
      {CHR '','', CHR ''-'', CHR ''.'', CHR ''/''} \<union>
      set ('':;<=>?@[]^_'' @ [CHR 0x60] @ ''{|}~'') = set string_punctuation - {CHR 0x5C}"
    by code_simp
  also have "c \<in> set string_punctuation - {CHR 0x5C} \<longleftrightarrow>
      c \<in> set string_punctuation \<and> c \<noteq> CHR 0x5C"
    by blast
  finally show ?thesis .
qed

lemma those_map_Some: "those (map (\<lambda>t. Some (f t)) xs) = Some (map f xs)"
  by (induction xs) simp_all


lemma remove_punctuation_tweet_chars:
  "remove_punctuation_tweet text_array =
     Some (map (filter (\<lambda>c. c \<notin> set string_punctuation \<or> c = CHR 0x5C)) text_array)"
proof -
  have "re_sub_empty (''[!'' @ [CHR 0x22] @ ''#$%&'' @ [CHR 0x27] @ ''()*+,-/:;<=>?@['' @ [CHR 0x5C]
           @ '']^_'' @ [CHR 0x60] @ ''{|}~]'')
        = (\<lambda>text. Some (filter (\<lambda>c. c \<notin> set string_punctuation \<or> c = CHR 0x5C) text))"
    by (rule ext) (simp only: re_sub_punctuation punctuation_items_match de_Morgan_conj not_not)
  then show ?thesis
    by (simp only: remove_punctuation_tweet_def punctuation_pattern option.case those_map_Some)
qed

section \<open>Results: plot_iterative_learning_curve\<close>

text \<open>
  C10. When \<open>model_name\<close> is None or \<open>dataset_name\<close> is None,
  \<open>plot_iterative_learning_curve\<close> raises an exception, and the only call it has made by
  then is the seeding of the random generator: no model is fitted and no file is written.
\<close>

theorem plot_iterative_learning_curve_guard:
  assumes "model_name = None \<or> dataset_name = None"
  shows "plot_iterative_learning_curve lib clfObj trgX trgY tstX tstY params model_name dataset_name
           = ([RandomSeed 42], Inl RuntimeError) \<and>
         \<not> list_ex fits_or_writes
             (fst (plot_iterative_learning_curve lib clfObj trgX trgY tstX tstY params
                     model_name dataset_name))"
  using assms
  by (auto simp: plot_iterative_learning_curve_def then_traced_def call_def fits_or_writes_def)

theorem plot_iterative_learning_curve_guard_witness:
  "((None :: string option) = None \<or> Some ''tweets'' = None) \<and>
   plot_iterative_learning_curve toy_lib 0 () 1 () 1 [(''depth'', [1, 2])] None (Some ''tweets'')
     = ([RandomSeed 42], Inl RuntimeError) \<and>
   plot_iterative_learning_curve toy_lib 0 () 1 () 1 [(''depth'', [1, 2])]
       (Some ''dt'') (Some ''tweets'')
     = ([RandomSeed 42, GridSearchFit, ToCsv ''./output/ITER_base_dt_tweets.csv'',
         SetParams ''depth'', Fit, Predict, Fit, Predict, Print,
         SetParams ''depth'', Fit, Predict, Fit, Predict, Print,
         ToCsv ''./output/ITERtestSET_dt_tweets.csv''],
        Inr [(1, SLib ''accuracy'', SLib ''accuracy''), (2, SLib ''accuracy'', SLib ''accuracy'')])"
proof -
  have g: "(None :: string option) = None \<or> Some ''tweets'' = None" by simp
  have run: "plot_iterative_learning_curve toy_lib 0 () 1 () 1 [(''depth'', [1, 2])]
       (Some ''dt'') (Some ''tweets'')
     = ([RandomSeed 42, GridSearchFit, ToCsv ''./output/ITER_base_dt_tweets.csv'',
         SetParams ''depth'', Fit, Predict, Fit, Predict, Print,
         SetParams ''depth'', Fit, Predict, Fit, Predict, Print,
         ToCsv ''./output/ITERtestSET_dt_tweets.csv''],
        Inr [(1, SLib ''accuracy'', SLib ''accuracy''), (2, SLib ''accuracy'', SLib ''accuracy'')])"
    by (simp add: plot_iterative_learning_curve_def then_traced_def call_def toy_lib_def)
  from plot_iterative_learning_curve_guard[OF g, of toy_lib 0 "()" 1 "()" 1 "[(''depth'', [1, 2])]"]
    run g
  show ?thesis by simp
qed


section \<open>Results: get_middle_factors\<close>

lemma isqrt_bounds:
  "0 \<le> n \<Longrightarrow> 0 \<le> isqrt n \<and> (isqrt n)\<^sup>2 \<le> n \<and> n < (isqrt n + 1)\<^sup>2"
proof (induction n rule: isqrt.induct)
  case (1 n)
  show ?case
  proof (cases "n \<le> 0")
    case True
    then show ?thesis using 1(2) by (simp add: isqrt.simps)
  next
    case False
    define a where "a = isqrt (n div 4)"
    have "0 \<le> n div 4" using 1(2) by simp
    from 1(1)[OF False this] have ih: "0 \<le> a" "a\<^sup>2 \<le> n div 4" "n div 4 < (a + 1)\<^sup>2"
      unfolding a_def by simp_all
    have lo: "(2 * a)\<^sup>2 \<le> n"
    proof -
      have "(2 * a)\<^sup>2 = 4 * a\<^sup>2" by (simp add: power2_eq_square)
      also have "\<dots> \<le> 4 * (n div 4)" using ih(2) by simp
      also have "\<dots> \<le> n" by simp
      finally show ?thesis .
    qed
    have hi: "n < (2 * a + 1 + 1)\<^sup>2"
    proof -
      have "n < 4 * (n div 4) + 4" by presburger
      also have "\<dots> \<le> 4 * (a + 1)\<^sup>2" using ih(3) by simp
      also have "\<dots> = (2 * a + 1 + 1)\<^sup>2" by (simp add: power2_eq_square algebra_simps)
      finally show ?thesis .
    qed
    have eq: "isqrt n = (if (2 * a + 1)\<^sup>2 \<le> n then 2 * a + 1 else 2 * a)"
      using False by (subst isqrt.simps) (simp add: a_def Let_def power2_eq_square)
    show ?thesis
    proof (cases "(2 * a + 1)\<^sup>2 \<le> n")
      case True
      then have "isqrt n = 2 * a + 1" using eq by simp
      with True hi ih(1) show ?thesis by simp
    next
      case no: False
      then have "isqrt n = 2 * a" using eq by simp
      with no lo ih(1) show ?thesis by simp
    qed
  qed
qed

lemma isqrt_ge:
  assumes "0 \<le> s" "s\<^sup>2 \<le> x"
  shows "s \<le> isqrt x"
proof (rule ccontr)
  assume "\<not> s \<le> isqrt x"
  then have le: "isqrt x + 1 \<le> s" by simp
  have x0: "0 \<le> x" using assms(2) by (meson order_trans zero_le_power2)
  note b = isqrt_bounds[OF x0]
  from b have "0 \<le> isqrt x + 1" by simp
  with le have "(isqrt x + 1)\<^sup>2 \<le> s\<^sup>2" by (simp only: power_mono)
  with assms(2) b show False by linarith
qed

lemma bit_length_bounds:
  "0 < n \<Longrightarrow> 2 ^ (bit_length n - 1) \<le> n \<and> n < 2 ^ bit_length n"
proof (induction n rule: bit_length.induct)
  case (1 n)
  then have n0: "\<not> n \<le> 0" by simp
  have eq: "bit_length n = Suc (bit_length (n div 2))"
    using n0 by (subst bit_length.simps) simp
  show ?case
  proof (cases "n div 2 \<le> 0")
    case True
    then have "n = 1" using n0 by presburger
    moreover have "bit_length (n div 2) = 0" using True by (subst bit_length.simps) simp
    ultimately show ?thesis using eq by simp
  next
    case False
    then have pos: "0 < n div 2" by simp
    from 1(1)[OF n0 pos] have ih: "2 ^ (bit_length (n div 2) - 1) \<le> n div 2"
      "n div 2 < 2 ^ bit_length (n div 2)" by simp_all
    have bl: "0 < bit_length (n div 2)"
      using False by (subst bit_length.simps) simp
    then have "(2::int) ^ bit_length (n div 2) = 2 * 2 ^ (bit_length (n div 2) - 1)"
      by (cases "bit_length (n div 2)") simp_all
    with ih show ?thesis unfolding eq by simp linarith
  qed
qed

lemma float64_of_int_bounds:
  fixes n :: int
  assumes n: "0 \<le> n"
  shows "0 \<le> float64_of_int n"
    and "2 * (n - float64_of_int n) \<le> 2 ^ (bit_length n - 53)"
    and "bit_length n \<le> 53 \<Longrightarrow> float64_of_int n = n"
    and "0 < n \<Longrightarrow> 2 ^ (bit_length n - 1) \<le> float64_of_int n"
proof -
  define p :: int where "p = 2 ^ (bit_length n - 53)"
  define q where "q = n div p"
  define r where "r = n mod p"
  have p: "0 < p" unfolding p_def by simp
  have nqr: "n = q * p + r" unfolding q_def r_def by simp
  have r: "0 \<le> r" "r < p" unfolding r_def using p by simp_all
  have q: "0 \<le> q" unfolding q_def using n p by (simp add: pos_imp_zdiv_nonneg_iff)
  have x: "float64_of_int n = (if p < 2 * r \<or> (p = 2 * r \<and> odd q) then (q + 1) * p else q * p)"
    unfolding float64_of_int_def Let_def p_def q_def r_def by (rule refl)
  have qp: "0 \<le> q * p" using q p by simp
  have up: "(q + 1) * p = q * p + p" by (simp add: algebra_simps)
  show "0 \<le> float64_of_int n" unfolding x using qp p up by simp
  show "2 * (n - float64_of_int n) \<le> 2 ^ (bit_length n - 53)"
    unfolding x p_def[symmetric] using nqr r up by (simp split: if_splits)
  show "float64_of_int n = n" if "bit_length n \<le> 53"
  proof -
    from that have "p = 1" unfolding p_def by simp
    then have "r = 0" "q = n" unfolding r_def q_def by simp_all
    then show ?thesis unfolding x using \<open>p = 1\<close> by simp
  qed
  show "2 ^ (bit_length n - 1) \<le> float64_of_int n" if pos: "0 < n"
  proof -
    have low: "2 ^ (bit_length n - 1) \<le> q * p"
    proof (cases "bit_length n \<le> 53")
      case True
      then have "p = 1" unfolding p_def by simp
      then have "q = n" unfolding q_def by simp
      with \<open>p = 1\<close> bit_length_bounds[OF pos, THEN conjunct1] show ?thesis by simp
    next
      case False
      then have "bit_length n - 1 = 52 + (bit_length n - 53)" by simp
      then have pw: "(2::int) ^ (bit_length n - 1) = 2 ^ 52 * p"
        unfolding p_def by (simp only: power_add)
      with bit_length_bounds[OF pos, THEN conjunct1] have "2 ^ 52 * p \<le> n" by simp
      then have "(2 ^ 52 * p) div p \<le> n div p" using p by (rule zdiv_mono1)
      then have "2 ^ 52 \<le> q" unfolding q_def using p by simp
      then have "2 ^ 52 * p \<le> q * p" using p by simp
      then show ?thesis unfolding pw .
    qed
    have "q * p \<le> float64_of_int n" unfolding x using p up by simp
    with low show ?thesis by linarith
  qed
qed


lemma float64_sqrt_trunc_ge:
  assumes "0 \<le> x"
  shows "isqrt x \<le> float64_sqrt_trunc x"
  unfolding float64_sqrt_trunc_def Let_def by simp

lemma np_root_bound:
  fixes n :: int
  assumes n: "0 \<le> n" "n < 2 ^ 64"
  shows "0 \<le> float64_sqrt_trunc (float64_of_int n)"
    and "n < (float64_sqrt_trunc (float64_of_int n) + 1)\<^sup>2"
proof -
  define x where "x = float64_of_int n"
  define s' where "s' = isqrt x"
  define s where "s = isqrt n"
  define r where "r = float64_sqrt_trunc x"
  have x0: "0 \<le> x" unfolding x_def by (rule float64_of_int_bounds(1)[OF n(1)])
  have s'0: "0 \<le> s'" unfolding s'_def by (rule isqrt_bounds[OF x0, THEN conjunct1])
  have s0: "0 \<le> s" unfolding s_def by (rule isqrt_bounds[OF n(1), THEN conjunct1])
  have rs': "s' \<le> r" unfolding s'_def r_def by (rule float64_sqrt_trunc_ge[OF x0])
  with s'0 show "0 \<le> float64_sqrt_trunc (float64_of_int n)" unfolding r_def x_def by simp
  have s2n: "s\<^sup>2 \<le> n" unfolding s_def by (rule isqrt_bounds[OF n(1), THEN conjunct2, THEN conjunct1])
  have ns: "n < (s + 1)\<^sup>2" unfolding s_def by (rule isqrt_bounds[OF n(1), THEN conjunct2, THEN conjunct2])
  have "n < (r + 1)\<^sup>2"
  proof (cases "s \<le> s'")
    case True
    with rs' s0 have "0 \<le> s + 1" "s + 1 \<le> r + 1" by simp_all
    then have "(s + 1)\<^sup>2 \<le> (r + 1)\<^sup>2" by (simp only: power_mono)
    with ns show ?thesis by simp
  next
    case False
    have xs: "x < s\<^sup>2"
    proof (rule ccontr)
      assume "\<not> x < s\<^sup>2"
      then have "s\<^sup>2 \<le> x" by simp
      from isqrt_ge[OF s0 this] False show False unfolding s'_def by simp
    qed
    with s2n have xn: "x < n" by simp
    with x0 have npos: "0 < n" by simp
    define L where "L = bit_length n"
    define e where "e = L - 53"
    have L53: "\<not> L \<le> 53"
      using float64_of_int_bounds(3)[OF n(1)] xn unfolding L_def x_def by auto
    then have e1: "1 \<le> e" "L - 1 = 52 + e" unfolding e_def by simp_all
    have "(2::int) ^ (L - 1) < 2 ^ 64"
      using bit_length_bounds[OF npos, THEN conjunct1] n(2) unfolding L_def by simp
    then have "L - 1 < 64" by (simp only: power_strict_increasing_iff one_less_numeral_iff semiring_norm)
    then have e11: "e \<le> 11" unfolding e_def by simp
    have xlow: "2 ^ (52 + e) \<le> x"
      using float64_of_int_bounds(4)[OF n(1) npos] unfolding x_def L_def[symmetric] e1(2) .
    have "(2::int) ^ 53 \<le> 2 ^ (52 + e)" using e1(1) by (intro power_increasing) simp_all
    with xlow have x53: "2 ^ 53 \<le> x" by simp
    define h :: int where "h = 2 ^ (e - 1)"
    have h2: "2 * h = 2 ^ e" unfolding h_def using e1(1) by (cases e) simp_all
    have "(2::int) ^ e \<le> 2 ^ 11" using e11 by (intro power_increasing) simp_all
    with h2 have h1024: "h \<le> 1024" by simp
    have "2 * (n - x) \<le> 2 ^ e"
      using float64_of_int_bounds(2)[OF n(1)] unfolding x_def L_def[symmetric] e_def .
    with s2n h2 have d: "s\<^sup>2 - x \<le> h" by simp
    have s26: "2 ^ 26 < s"
    proof (rule ccontr)
      assume "\<not> 2 ^ 26 < s"
      then have "s \<le> 2 ^ 26" by simp
      with s0 have "s\<^sup>2 \<le> (2 ^ 26)\<^sup>2" by (simp only: power_mono)
      with xs x53 show False by simp
    qed
    have s32: "s < 2 ^ 32"
    proof (rule ccontr)
      assume "\<not> s < 2 ^ 32"
      then have "(2::int) ^ 32 \<le> s" by simp
      then have "((2::int) ^ 32)\<^sup>2 \<le> s\<^sup>2" by (simp only: power_mono zero_le_numeral zero_le_power)
      with s2n n(2) show False by simp
    qed
    have sq1: "(s - 1)\<^sup>2 = s\<^sup>2 - 2 * s + 1" by (simp add: power2_eq_square algebra_simps)
    have "(s - 1)\<^sup>2 \<le> x" unfolding sq1 using d h1024 s26 by simp
    moreover have "0 \<le> s - 1" using s26 by simp
    ultimately have "s - 1 \<le> s'" unfolding s'_def by (intro isqrt_ge)
    with False have s': "s' = s - 1" by simp
    then have s'pos: "0 < s'" using s26 by simp
    define bl where "bl = bit_length s'"
    note blb0 = bit_length_bounds[OF s'pos, folded bl_def]
    note blb = blb0[THEN conjunct1] blb0[THEN conjunct2]
    have "(2::int) ^ (bl - 1) < 2 ^ 32" using blb(1) s32 s' by simp
    then have "bl - 1 < 32" by (simp only: power_strict_increasing_iff one_less_numeral_iff semiring_norm)
    then have bl32: "bl \<le> 32" by simp
    have bl1: "1 \<le> bl"
    proof (rule ccontr)
      assume "\<not> 1 \<le> bl"
      then have "bl = 0" by simp
      with blb(2) s'pos show False by simp
    qed
    have sbl: "s \<le> 2 ^ bl" using blb(2) s' by simp
    with s0 have "s\<^sup>2 \<le> ((2::int) ^ bl)\<^sup>2" by (simp only: power_mono)
    also have "\<dots> = 2 ^ (2 * bl)" by (simp add: power_mult mult.commute)
    finally have "s\<^sup>2 \<le> 2 ^ (2 * bl)" .
    with xlow xs have "(2::int) ^ (52 + e) < 2 ^ (2 * bl)" by linarith
    then have exps: "52 + e < 2 * bl"
      by (simp only: power_strict_increasing_iff one_less_numeral_iff semiring_norm)
    define t :: int where "t = 2 ^ (54 - bl)"
    have t2: "2 \<le> t"
    proof -
      have "(2::int) ^ 1 \<le> 2 ^ (54 - bl)" using bl32 by (intro power_increasing) simp_all
      then show ?thesis unfolding t_def by simp
    qed
    have "h * t = 2 ^ ((e - 1) + (54 - bl))" unfolding h_def t_def by (simp only: power_add)
    also have "\<dots> \<le> 2 ^ bl" using exps e1(1) bl32 by (intro power_increasing) simp_all
    also have "\<dots> = 2 * 2 ^ (bl - 1)" using bl1 by (cases bl) simp_all
    also have "\<dots> \<le> 2 * s'" using blb(1) by simp
    finally have ht: "h * t \<le> 2 * s - 2" using s' by simp
    define A where "A = s\<^sup>2 * t\<^sup>2"
    define B where "B = s * t"
    have lhs: "((s' + 1) * t - 1)\<^sup>2 = A - 2 * B + 1"
      unfolding s' A_def B_def by (simp add: power2_eq_square algebra_simps)
    have "(s\<^sup>2 - x) * t\<^sup>2 \<le> h * t\<^sup>2" using d by (intro mult_right_mono) simp_all
    then have x1: "A - h * t\<^sup>2 \<le> x * t\<^sup>2" unfolding A_def by (simp add: algebra_simps)
    have "(h * t) * t \<le> (2 * s - 2) * t" using ht t2 by (intro mult_right_mono) simp_all
    then have x2: "h * t\<^sup>2 \<le> 2 * B - 2 * t" unfolding B_def by (simp add: power2_eq_square algebra_simps)
    have up: "((s' + 1) * t - 1)\<^sup>2 < x * t\<^sup>2" unfolding lhs using x1 x2 t2 by linarith
    have "r = s' + 1"
      unfolding r_def float64_sqrt_trunc_def Let_def s'_def[symmetric] bl_def[symmetric] t_def[symmetric]
      using s'pos up by simp
    with ns s' show ?thesis by simp
  qed
  then show "n < (float64_sqrt_trunc (float64_of_int n) + 1)\<^sup>2" unfolding r_def x_def .
qed


lemma set_py_range:
  "0 < st \<Longrightarrow> set (py_range a b st) = {i. a \<le> i \<and> i < b \<and> st dvd (i - a)}"
proof (induction a b st rule: py_range.induct)
  case (1 start stop step)
  show ?case
  proof (cases "start < stop")
    case False
    then show ?thesis by (simp add: py_range.simps[of start stop step])
  next
    case True
    with 1 have IH: "set (py_range (start + step) stop step) =
        {i. start + step \<le> i \<and> i < stop \<and> step dvd (i - (start + step))}"
      by simp
    have "{i. start \<le> i \<and> i < stop \<and> step dvd (i - start)} =
          insert start {i. start + step \<le> i \<and> i < stop \<and> step dvd (i - (start + step))}"
      (is "?L = ?R")
    proof (rule set_eqI)
      fix i
      show "i \<in> ?L \<longleftrightarrow> i \<in> ?R"
      proof
        assume "i \<in> ?L"
        then have i: "start \<le> i" "i < stop" "step dvd (i - start)" by auto
        show "i \<in> ?R"
        proof (cases "i = start")
          case True then show ?thesis by simp
        next
          case False
          with i have "0 < i - start" by simp
          with i(3) have "step \<le> i - start" by (rule zdvd_imp_le)
          moreover from i(3) have "step dvd (i - (start + step))"
            by (metis diff_diff_add dvd_diff dvd_refl)
          ultimately show ?thesis using i by simp
        qed
      next
        assume "i \<in> ?R"
        then show "i \<in> ?L"
        proof
          assume "i = start" with True show ?thesis by simp
        next
          assume "i \<in> {i. start + step \<le> i \<and> i < stop \<and> step dvd (i - (start + step))}"
          then have i: "start + step \<le> i" "i < stop" "step dvd (i - (start + step))" by auto
          have "i - start = (i - (start + step)) + step" by simp
          with i(3) have "step dvd (i - start)" by (metis dvd_add dvd_refl)
          with i 1(2) show ?thesis by simp
        qed
      qed
    qed
    with IH True 1(2) show ?thesis by (simp add: py_range.simps[of start stop step])
  qed
qed

lemma set_sorted_divisors: "set (sorted_divisors n) = {d. 1 \<le> d \<and> d \<le> n \<and> d dvd n}"
  by (auto simp: sorted_divisors_def)

lemma strict_sorted_divisors: "sorted_wrt (<) (sorted_divisors n)"
  unfolding sorted_divisors_def by (rule sorted_wrt_filter) (rule sorted_wrt_upto)



lemma div_of_divisor:
  fixes n d :: int
  assumes "1 \<le> n" "1 \<le> d" "d dvd n"
  shows "1 \<le> n div d" "n div d \<le> n" "n div d dvd n" "d * (n div d) = n" "d \<le> n"
proof -
  from assms(3) show e: "d * (n div d) = n" by simp
  from assms show "1 \<le> n div d"
    by (meson int_one_le_iff_zero_less pos_imp_zdiv_pos_iff zdvd_imp_le)
  from assms show "n div d \<le> n"
    using zdiv_mono2[of n 1 d] by simp
  show "n div d dvd n" by (metis e dvd_triv_right)
  from assms show "d \<le> n" by (simp add: zdvd_imp_le)
qed

lemma small_divisor_in_range:
  fixes n s m :: int
  assumes n: "1 \<le> n" and s: "0 \<le> s" "n < (s + 1)\<^sup>2" and m: "1 \<le> m" "m dvd n" "m * m \<le> n"
  shows "m \<in> set (filter (\<lambda>i. n mod i = 0) (py_range 1 (s + 1) (if n mod 2 \<noteq> 0 then 2 else 1)))"
proof -
  have "m\<^sup>2 < (s + 1)\<^sup>2" using m(3) s(2) by (simp add: power2_eq_square)
  then have "m < s + 1" using s(1) not_less by fastforce
  moreover have "(if n mod 2 \<noteq> 0 then 2 else 1) dvd (m - 1)"
  proof (cases "n mod 2 \<noteq> 0")
    case True
    then have "odd n" by presburger
    with m(2) have "odd m" using dvd_trans by blast
    then have "even (m - 1)" by simp
    with True show ?thesis by simp
  next
    case False then show ?thesis by simp
  qed
  ultimately show ?thesis using m(1,2) by (simp add: set_py_range)
qed

lemma mem_factor_pairs:
  "d \<in> set (concat (map (\<lambda>i. [i, n div i]) R)) \<longleftrightarrow> (\<exists>i\<in>set R. d = i \<or> d = n div i)"
  by (induction R) auto

lemma set_factor_pairs:
  fixes n s :: int
  assumes n: "1 \<le> n" and s: "0 \<le> s" "n < (s + 1)\<^sup>2"
  shows "set (concat (map (\<lambda>i. [i, n div i])
            (filter (\<lambda>i. n mod i = 0) (py_range 1 (s + 1) (if n mod 2 \<noteq> 0 then 2 else 1)))))
         = set (sorted_divisors n)"
    (is "set (concat (map _ ?R)) = _")
proof (rule set_eqI)
  fix d
  have R: "i \<in> set ?R \<Longrightarrow> 1 \<le> i \<and> i dvd n" for i
    by (auto simp: set_py_range split: if_splits)
  show "d \<in> set (concat (map (\<lambda>i. [i, n div i]) ?R)) \<longleftrightarrow> d \<in> set (sorted_divisors n)"
  proof
    assume "d \<in> set (concat (map (\<lambda>i. [i, n div i]) ?R))"
    then obtain i where i: "i \<in> set ?R" and d: "d = i \<or> d = n div i"
      unfolding mem_factor_pairs by blast
    from R[OF i] have "1 \<le> i" "i dvd n" by auto
    from div_of_divisor[OF n this] d show "d \<in> set (sorted_divisors n)"
      by (auto simp: set_sorted_divisors \<open>1 \<le> i\<close> \<open>i dvd n\<close>)
  next
    assume "d \<in> set (sorted_divisors n)"
    then have d: "1 \<le> d" "d dvd n" by (auto simp: set_sorted_divisors)
    note dd = div_of_divisor[OF n d]
    define m where "m = min d (n div d)"
    have m1: "1 \<le> m" using d(1) dd(1) by (simp add: m_def)
    have m2: "m dvd n" using d(2) dd(3) by (simp add: m_def min_def)
    have "m * m \<le> d * (n div d)"
      unfolding m_def using d(1) dd(1) by (intro mult_mono) auto
    then have m3: "m * m \<le> n" using dd(4) by simp
    have "d = m \<or> d = n div m"
    proof (cases "d \<le> n div d")
      case True then show ?thesis by (simp add: m_def)
    next
      case False
      then have "m = n div d" by (simp add: m_def)
      moreover have "n div (n div d) = d" using dd(4) dd(1)
        by (metis mult.commute nonzero_mult_div_cancel_left not_one_le_zero)
      ultimately show ?thesis by simp
    qed
    moreover have "m \<in> set ?R" by (rule small_divisor_in_range[OF n s m1 m2 m3])
    ultimately show "d \<in> set (concat (map (\<lambda>i. [i, n div i]) ?R))"
      unfolding mem_factor_pairs by blast
  qed
qed


lemma factors_eq_sorted_divisors:
  fixes n s :: int
  assumes n: "1 \<le> n" and s: "0 \<le> s" "n < (s + 1)\<^sup>2"
  shows "sort (remdups (concat (map (\<lambda>i. [i, n div i])
            (filter (\<lambda>i. n mod i = 0) (py_range 1 (s + 1) (if n mod 2 \<noteq> 0 then 2 else 1))))))
         = sorted_divisors n"
proof (rule sorted_distinct_set_unique)
  show "sorted (sorted_divisors n)" "distinct (sorted_divisors n)"
    using strict_sorted_divisors[of n] by (simp_all add: strict_sorted_iff)
  show "set (sort (remdups (concat (map (\<lambda>i. [i, n div i])
            (filter (\<lambda>i. n mod i = 0) (py_range 1 (s + 1) (if n mod 2 \<noteq> 0 then 2 else 1)))))))
         = set (sorted_divisors n)"
    using set_factor_pairs[OF n s] by simp
qed simp_all

lemma div_antimono_on_divisors:
  fixes n x y :: int
  assumes "1 \<le> n" "1 \<le> x" "x dvd n" "y dvd n" "x < y"
  shows "n div y < n div x"
proof (rule ccontr)
  assume "\<not> n div y < n div x"
  then have le: "n div x \<le> n div y" by simp
  have y1: "1 \<le> y" using assms(2,5) by simp
  note dx = div_of_divisor[OF assms(1,2,3)] and dy = div_of_divisor[OF assms(1) y1 assms(4)]
  have "x * (n div x) < y * (n div x)" using assms(5) dx(1) by simp
  also have "\<dots> \<le> y * (n div y)" using le y1 by (simp add: mult_left_mono)
  finally show False using dx(4) dy(4) by simp
qed

lemma divisors_mirror:
  fixes n :: int
  assumes n: "1 \<le> n"
  shows "rev (map (\<lambda>d. n div d) (sorted_divisors n)) = sorted_divisors n"
proof -
  let ?ds = "sorted_divisors n"
  have mem: "d \<in> set ?ds \<longleftrightarrow> 1 \<le> d \<and> d dvd n" for d
    using n by (auto simp: set_sorted_divisors zdvd_imp_le)
  have "sorted_wrt (\<lambda>x y. n div y < n div x) ?ds"
    using strict_sorted_divisors[of n]
    by (rule sorted_wrt_mono_rel[rotated]) (auto simp: mem intro: div_antimono_on_divisors[OF n])
  then have str: "sorted_wrt (<) (rev (map (\<lambda>d. n div d) ?ds))"
    by (simp add: sorted_wrt_rev sorted_wrt_map)
  have "(\<lambda>d. n div d) ` set ?ds = set ?ds"
  proof (rule set_eqI)
    fix d
    show "d \<in> (\<lambda>d. n div d) ` set ?ds \<longleftrightarrow> d \<in> set ?ds"
    proof
      assume "d \<in> (\<lambda>d. n div d) ` set ?ds"
      then obtain e where "1 \<le> e" "e dvd n" "d = n div e" by (auto simp: mem)
      with div_of_divisor[OF n, of e] show "d \<in> set ?ds" by (simp add: mem)
    next
      assume "d \<in> set ?ds"
      then have d: "1 \<le> d" "d dvd n" by (simp_all add: mem)
      note dd = div_of_divisor[OF n d]
      have "n div (n div d) = d" using dd(4) dd(1)
        by (metis mult.commute nonzero_mult_div_cancel_left not_one_le_zero)
      moreover have "n div d \<in> set ?ds" using dd by (simp add: mem)
      ultimately show "d \<in> (\<lambda>d. n div d) ` set ?ds" by (metis imageI)
    qed
  qed
  then have "set (rev (map (\<lambda>d. n div d) ?ds)) = set ?ds" by simp
  with str strict_sorted_divisors[of n] show ?thesis
    by (intro sorted_distinct_set_unique) (simp_all add: strict_sorted_iff)
qed

lemma divisors_nth_mirror:
  fixes n :: int
  assumes n: "1 \<le> n" and j: "j < length (sorted_divisors n)"
  shows "sorted_divisors n ! j * sorted_divisors n ! (length (sorted_divisors n) - 1 - j) = n"
proof -
  let ?ds = "sorted_divisors n"
  let ?k = "length ?ds - 1 - j"
  have k: "?k < length ?ds" using j by simp
  have "?ds ! j = rev (map (\<lambda>d. n div d) ?ds) ! j"
    by (simp add: divisors_mirror[OF n])
  also have "\<dots> = n div (?ds ! ?k)"
    using j k by (simp add: rev_nth)
  finally have "?ds ! j = n div (?ds ! ?k)" .
  moreover have "?ds ! ?k dvd n"
    using nth_mem[OF k] by (simp add: set_sorted_divisors)
  ultimately show ?thesis by simp
qed


lemma int_np_sqrt_value:
  fixes n :: int
  assumes "0 \<le> n" "n < 2 ^ 64"
  shows "int_np_sqrt n = Inr (float64_sqrt_trunc (float64_of_int n))"
  using assms unfolding int_np_sqrt_def by simp

lemma int_np_sqrt_rounds_up:
  "isqrt 4503599761588224 = 67108864 \<and> int_np_sqrt 4503599761588224 = Inr 67108865"
  by code_simp

lemma factors_fit_int64:
  fixes n :: int
  assumes "n < 2 ^ 63"
  shows "list_all fits_int64 (sorted_divisors n)"
  using assms unfolding list_all_iff set_sorted_divisors fits_int64_def by auto

lemma factors_exceed_int64:
  fixes n :: int
  assumes "2 ^ 63 \<le> n"
  shows "\<not> list_all fits_int64 (sorted_divisors n)"
proof -
  have "n \<in> set (sorted_divisors n)" using assms unfolding set_sorted_divisors by simp
  moreover have "\<not> fits_int64 n" using assms unfolding fits_int64_def by simp
  ultimately show ?thesis unfolding list_all_iff by blast
qed

lemma get_middle_factors_value:
  fixes n :: int
  assumes n: "1 \<le> n" and n64: "n < 2 ^ 64"
  shows "get_middle_factors n =
     (if 1 < length (sorted_divisors n)
      then Inr (array_pair (sorted_divisors n) ((length (sorted_divisors n) - 1) div 2)
                           (length (sorted_divisors n) div 2))
      else Inr (FScalar 0))"
proof -
  define s where "s = float64_sqrt_trunc (float64_of_int n)"
  have n0: "0 \<le> n" using n by simp
  have root: "int_np_sqrt n = Inr s" unfolding s_def by (rule int_np_sqrt_value[OF n0 n64])
  have s: "0 \<le> s" "n < (s + 1)\<^sup>2" unfolding s_def by (rule np_root_bound[OF n0 n64])+
  let ?R = "filter (\<lambda>i. n mod i = 0) (py_range 1 (s + 1) (if n mod 2 \<noteq> 0 then 2 else 1))"
  let ?L = "length (sorted_divisors n)"
  have "1 \<in> set ?R"
    by (rule small_divisor_in_range[OF n s]) (use n in simp_all)
  then have "?R \<noteq> []" by (metis empty_iff empty_set)
  then have red: "reduce_list_add (map (\<lambda>i. [i, n div i]) ?R) = Inr (concat (map (\<lambda>i. [i, n div i]) ?R))"
    by (simp add: reduce_list_add_def)
  note fs = factors_eq_sorted_divisors[OF n s]
  have val: "get_middle_factors n =
     (if ?L > 3 \<and> ?L mod 2 = 0 then
        Inr (array_pair (sorted_divisors n) (?L div 2 - 1) (?L div 2))
      else if ?L > 2 \<and> ?L mod 2 \<noteq> 0 then
        Inr (array_pair (sorted_divisors n) (?L div 2) (?L div 2))
      else if ?L > 1 then Inr (array_pair (sorted_divisors n) 0 1)
      else Inr (FScalar 0))"
    unfolding get_middle_factors_def Let_def root and_then_Inr red fs by (rule refl)
  show ?thesis
  proof (cases "?L \<le> 2")
    case True
    show ?thesis
    proof (cases "?L = 2")
      case two: True
      then show ?thesis unfolding val by simp
    next
      case False
      with True have "?L \<le> 1" by simp
      then show ?thesis unfolding val by simp
    qed
  next
    case False
    show ?thesis
    proof (cases "?L mod 2 = 0")
      case True
      with False have "?L > 3" "?L div 2 - 1 = (?L - 1) div 2" by presburger+
      with True show ?thesis unfolding val by simp
    next
      case odd: False
      with False have "?L > 2" "?L div 2 = (?L - 1) div 2" by presburger+
      with odd show ?thesis unfolding val by simp
    qed
  qed
qed

lemma length_divisors_ge2:
  fixes n :: int
  assumes "2 \<le> n"
  shows "2 \<le> length (sorted_divisors n)"
proof -
  have "{1, n} \<subseteq> set (sorted_divisors n)" using assms by (auto simp: set_sorted_divisors)
  then have "card {1, n} \<le> card (set (sorted_divisors n))" by (intro card_mono) simp_all
  also have "\<dots> \<le> length (sorted_divisors n)" by (rule card_length)
  finally show ?thesis using assms by simp
qed

lemma middle_index_facts:
  fixes L :: nat
  assumes "2 \<le> L"
  shows "(L - 1) div 2 < L" "L div 2 < L" "L - 1 - (L - 1) div 2 = L div 2"
    "(L - 1) div 2 \<le> L div 2"
  using assms by linarith+

lemma odd_middle_index:
  fixes L :: nat
  shows "odd L \<Longrightarrow> (L - 1) div 2 = L div 2"
  by (auto elim: oddE)

text \<open>
  From \<open>2^63\<close> up to \<open>2^64\<close> the factors no longer fit into an int64 array: the function
  returns a pair of float64 values.
\<close>

lemma get_middle_factors_float_pair:
  fixes n :: int
  assumes "2 ^ 63 \<le> n" "n < 2 ^ 64"
  shows "get_middle_factors n =
     Inr (FFloatPair
       (float64_of_int (sorted_divisors n ! ((length (sorted_divisors n) - 1) div 2)))
       (float64_of_int (sorted_divisors n ! (length (sorted_divisors n) div 2))))"
proof -
  have n: "1 \<le> n" "2 \<le> n" using assms(1) by simp_all
  from length_divisors_ge2[OF n(2)] have "1 < length (sorted_divisors n)" by simp
  then show ?thesis
    unfolding get_middle_factors_value[OF n(1) assms(2)] array_pair_def
    using factors_exceed_int64[OF assms(1)] by simp
qed

lemma get_middle_factors_float_pair_example:
  "\<exists>a b. get_middle_factors 9223372036854775808 = Inr (FFloatPair a b)"
  by (intro exI, rule get_middle_factors_float_pair) simp_all

text \<open>
  C9. For every integer \<open>n\<close> with \<open>2 \<le> n < 2^63\<close>, \<open>get_middle_factors\<close> returns a pair
  \<open>(a, b)\<close> of positive integers that both divide \<open>n\<close>, with \<open>a * b = n\<close> and \<open>a \<le> b\<close>:
  the two middle entries of the sorted list of divisors of \<open>n\<close>, which are one and the
  same entry (the square root of \<open>n\<close>) when the number of divisors is odd. For \<open>n = 1\<close> it
  returns the scalar 0 and no pair.
\<close>

theorem get_middle_factors_spec:
  fixes n :: int
  shows "(2 \<le> n \<and> n < 2 ^ 63 \<longrightarrow>
           (\<exists>a b. get_middle_factors n = Inr (FPair a b) \<and>
                  0 < a \<and> 0 < b \<and> a dvd n \<and> b dvd n \<and> a * b = n \<and> a \<le> b \<and>
                  a = sorted_divisors n ! ((length (sorted_divisors n) - 1) div 2) \<and>
                  b = sorted_divisors n ! (length (sorted_divisors n) div 2) \<and>
                  (odd (length (sorted_divisors n)) \<longrightarrow> a = b))) \<and>
         (n = 1 \<longrightarrow> get_middle_factors n = Inr (FScalar 0))"
proof (intro conjI impI)
  assume "2 \<le> n \<and> n < 2 ^ 63"
  then have n2: "2 \<le> n" and n63: "n < 2 ^ 63" by simp_all
  then have n: "1 \<le> n" and n64: "n < 2 ^ 64" by simp_all
  define ds where "ds = sorted_divisors n"
  define L where "L = length ds"
  define a where "a = ds ! ((L - 1) div 2)"
  define b where "b = ds ! (L div 2)"
  have L: "2 \<le> L" unfolding L_def ds_def by (rule length_divisors_ge2[OF n2])
  note ix = middle_index_facts[OF L]
  have val: "get_middle_factors n = Inr (FPair a b)"
    using L factors_fit_int64[OF n63]
    unfolding get_middle_factors_value[OF n n64] array_pair_def a_def b_def L_def ds_def by simp
  have "a \<in> set ds" "b \<in> set ds"
    unfolding a_def b_def using ix(1,2) by (simp_all add: L_def)
  then have ab: "1 \<le> a" "a dvd n" "1 \<le> b" "b dvd n"
    unfolding ds_def set_sorted_divisors by simp_all
  have prod: "a * b = n"
    using divisors_nth_mirror[OF n, of "(L - 1) div 2"] ix(1,3)
    unfolding a_def b_def L_def ds_def by simp
  have "sorted ds"
    unfolding ds_def using strict_sorted_divisors[of n] by (simp add: strict_sorted_iff)
  then have ord: "a \<le> b"
    unfolding a_def b_def using ix(2,4) by (simp add: sorted_nth_mono L_def)
  have odd: "a = b" if "odd L"
    unfolding a_def b_def using odd_middle_index[OF that] by simp
  from val ab prod ord odd
  have "get_middle_factors n = Inr (FPair a b) \<and>
        0 < a \<and> 0 < b \<and> a dvd n \<and> b dvd n \<and> a * b = n \<and> a \<le> b \<and>
        a = sorted_divisors n ! ((length (sorted_divisors n) - 1) div 2) \<and>
        b = sorted_divisors n ! (length (sorted_divisors n) div 2) \<and>
        (odd (length (sorted_divisors n)) \<longrightarrow> a = b)"
    unfolding a_def b_def L_def ds_def by simp
  then show "\<exists>a b. get_middle_factors n = Inr (FPair a b) \<and>
        0 < a \<and> 0 < b \<and> a dvd n \<and> b dvd n \<and> a * b = n \<and> a \<le> b \<and>
        a = sorted_divisors n ! ((length (sorted_divisors n) - 1) div 2) \<and>
        b = sorted_divisors n ! (length (sorted_divisors n) div 2) \<and>
        (odd (length (sorted_divisors n)) \<longrightarrow> a = b)"
    by blast
next
  assume n1: "n = 1"
  then have n: "1 \<le> n" "n < 2 ^ 64" by simp_all
  have "length (sorted_divisors n) = 1"
    unfolding n1 by (simp add: sorted_divisors_def)
  then show "get_middle_factors n = Inr (FScalar 0)"
    unfolding get_middle_factors_value[OF n] by simp
qed

text \<open>
  The bound is needed: \<open>2^64\<close> is an integer \<open>n \<ge> 2\<close> on which \<open>np.sqrt\<close> raises
  TypeError, so that no pair is returned.
\<close>

theorem get_middle_factors_type_error:
  "(2::int) \<le> 18446744073709551616 \<and> get_middle_factors 18446744073709551616 = Inl TypeError"
  by (simp add: get_middle_factors_def int_np_sqrt_def)

theorem get_middle_factors_spec_witness:
  "(2::int) \<le> 12 \<and> (12::int) < 2 ^ 63 \<and>
   sorted_divisors 12 = [1, 2, 3, 4, 6, 12] \<and>
   get_middle_factors 12 = Inr (FPair 3 4) \<and>
   get_middle_factors 1 = Inr (FScalar 0)"
proof -
  have ds: "sorted_divisors 12 = [1, 2, 3, 4, 6, 12]" by code_simp
  have a: "get_middle_factors 12 = Inr (FPair 3 4)"
    using get_middle_factors_spec[of 12] by (auto simp: ds)
  have b: "get_middle_factors 1 = Inr (FScalar 0)"
    using get_middle_factors_spec[of 1] by simp
  from ds a b show ?thesis by simp
qed

section \<open>Results: glove_vectorize\<close>

lemma dict_setitem_subset: "set (dict_setitem d k v) \<subseteq> insert (k, v) (set d)"
  by (induction d) (auto split: if_splits)

lemma dict_setitem_keys: "fst ` set (dict_setitem d k v) = insert k (fst ` set d)"
  by (induction d) (force split: if_splits)+

lemma dict_setitem_distinct:
  "distinct (map fst d) \<Longrightarrow> distinct (map fst (dict_setitem d k v))"
proof (induction d)
  case Nil
  then show ?case by simp
next
  case (Cons p d)
  obtain k' v' where p: "p = (k', v')" by (cases p)
  show ?case
  proof (cases "k' = k")
    case True
    with Cons.prems show ?thesis by (simp add: p)
  next
    case False
    from Cons.prems have "k' \<notin> fst ` set d" and "distinct (map fst d)" by (simp_all add: p)
    with False Cons.IH show ?thesis by (simp add: p dict_setitem_keys)
  qed
qed

lemma foldl_dict_setitem:
  "set (foldl (\<lambda>d (k, v). dict_setitem d k v) acc ps) \<subseteq> set acc \<union> set ps \<and>
   fst ` set (foldl (\<lambda>d (k, v). dict_setitem d k v) acc ps) = fst ` set acc \<union> fst ` set ps \<and>
   (distinct (map fst acc) \<longrightarrow> distinct (map fst (foldl (\<lambda>d (k, v). dict_setitem d k v) acc ps)))"
proof (induction ps arbitrary: acc)
  case Nil
  then show ?case by simp
next
  case (Cons p ps)
  obtain k v where p: "p = (k, v)" by (cases p)
  note ih = Cons.IH[of "dict_setitem acc k v"]
  have sub: "set (dict_setitem acc k v) \<subseteq> insert (k, v) (set acc)"
    by (rule dict_setitem_subset)
  have keys: "fst ` set (dict_setitem acc k v) = insert k (fst ` set acc)"
    by (rule dict_setitem_keys)
  have a: "set (foldl (\<lambda>d (k, v). dict_setitem d k v) acc (p # ps)) \<subseteq> set acc \<union> set (p # ps)"
    using ih sub unfolding p by auto
  have b: "fst ` set (foldl (\<lambda>d (k, v). dict_setitem d k v) acc (p # ps))
             = fst ` set acc \<union> fst ` set (p # ps)"
    using ih keys unfolding p by auto
  have c: "distinct (map fst (foldl (\<lambda>d (k, v). dict_setitem d k v) acc (p # ps)))"
    if "distinct (map fst acc)"
    using ih dict_setitem_distinct[OF that, of k v] unfolding p by simp
  from a b c show ?case by blast
qed

lemma word_index_item:
  assumes "(w, i) \<in> set (word_index voc)"
  shows "i < length voc" "voc ! i = w"
proof -
  from assms foldl_dict_setitem[of "[]" "zip voc [0..<length voc]"]
  have "(w, i) \<in> set (zip voc [0..<length voc])"
    unfolding word_index_def dict_of_pairs_def by auto
  then obtain j where "j < length voc" "voc ! j = w" "[0..<length voc] ! j = i"
    unfolding set_zip by auto
  then show "i < length voc" "voc ! i = w" by simp_all
qed

lemma word_index_keys: "fst ` set (word_index voc) = set voc"
proof -
  have "fst ` set (zip voc [0..<length voc]) = set voc"
    by (metis length_upt map_fst_zip minus_nat.diff_0 set_map)
  then show ?thesis
    using foldl_dict_setitem[of "[]" "zip voc [0..<length voc]"]
    unfolding word_index_def dict_of_pairs_def by simp
qed

lemma word_index_distinct_keys: "distinct (map fst (word_index voc))"
  using foldl_dict_setitem[of "[]" "zip voc [0..<length voc]"]
  unfolding word_index_def dict_of_pairs_def by simp

lemma word_index_distinct_values: "distinct (map snd (word_index voc))"
proof -
  have "map fst (word_index voc) = map ((!) voc) (map snd (word_index voc))"
    using word_index_item(2)[of _ _ voc] by (auto simp: map_eq_conv)
  with word_index_distinct_keys[of voc] have "distinct (map ((!) voc) (map snd (word_index voc)))"
    by simp
  then show ?thesis unfolding distinct_map[of "(!) voc" "map snd (word_index voc)"] by (rule conjunct1)
qed

lemma word_index_distinct_vocabulary:
  "distinct voc \<Longrightarrow> word_index voc = zip voc [0..<length voc]"
proof -
  have fresh: "dict_setitem d k v = d @ [(k, v)]" if "k \<notin> fst ` set d" for d :: "(string \<times> nat) list" and k v
    using that by (induction d) auto
  have gen: "foldl (\<lambda>d (k, v). dict_setitem d k v) acc ps = acc @ ps"
    if "distinct (map fst (acc @ ps))" for acc ps :: "(string \<times> nat) list"
    using that
  proof (induction ps arbitrary: acc)
    case Nil
    then show ?case by simp
  next
    case (Cons p ps)
    obtain k v where p: "p = (k, v)" by (cases p)
    from Cons.prems have f: "k \<notin> fst ` set acc" by (auto simp: p)
    from Cons.prems have "distinct (map fst ((acc @ [(k, v)]) @ ps))" by (simp add: p)
    from Cons.IH[OF this] show ?case by (simp add: p fresh[OF f])
  qed
  assume "distinct voc"
  then have "distinct (map fst ([] @ zip voc [0..<length voc]))" by simp
  from gen[OF this] show ?thesis by (simp add: word_index_def dict_of_pairs_def)
qed

lemma fill_matrix_rows:
  assumes "\<forall>(w, i)\<in>set items. i < length m"
    and "\<forall>row\<in>set m. length row = D"
    and "\<forall>w v. idx w = Some v \<longrightarrow> length v = D"
    and "distinct (map snd items)"
  shows "\<exists>m'. fill_matrix idx items m = Inr m' \<and> length m' = length m \<and>
     (\<forall>row\<in>set m'. length row = D) \<and>
     (\<forall>(w, i)\<in>set items. m' ! i = (case idx w of Some v \<Rightarrow> v | None \<Rightarrow> m ! i)) \<and>
     (\<forall>j<length m. j \<notin> snd ` set items \<longrightarrow> m' ! j = m ! j)"
  using assms
proof (induction items arbitrary: m)
  case Nil
  then show ?case by simp
next
  case (Cons p items)
  obtain w i where p: "p = (w, i)" by (cases p)
  from Cons.prems(1) have i: "i < length m" and rest: "\<forall>(w, i)\<in>set items. i < length m"
    by (auto simp: p)
  from Cons.prems(4) have fresh: "i \<notin> snd ` set items" and dist: "distinct (map snd items)"
    by (auto simp: p)
  define m1 where "m1 = (case idx w of Some v \<Rightarrow> m[i := v] | None \<Rightarrow> m)"
  have len1: "length m1 = length m" unfolding m1_def by (simp split: option.splits)
  have rows1: "\<forall>row\<in>set m1. length row = D"
  proof (cases "idx w")
    case None
    then show ?thesis unfolding m1_def using Cons.prems(2) by simp
  next
    case (Some v)
    then have "length v = D" using Cons.prems(3) by simp
    moreover have "set (m[i := v]) \<subseteq> insert v (set m)" by (rule set_update_subset_insert)
    ultimately show ?thesis unfolding m1_def Some using Cons.prems(2) by auto
  qed
  have step: "fill_matrix idx (p # items) m = fill_matrix idx items m1"
  proof (cases "idx w")
    case None
    then show ?thesis unfolding m1_def p by simp
  next
    case (Some v)
    then have "length v = D" using Cons.prems(3) by simp
    moreover have "length (m ! i) = D" using Cons.prems(2) i by simp
    ultimately have "np_set_row m i v = Inr (m[i := v])" using i by (simp add: np_set_row_def)
    then show ?thesis unfolding m1_def p by (simp add: Some)
  qed
  have at_i: "m1 ! i = (case idx w of Some v \<Rightarrow> v | None \<Rightarrow> m ! i)"
    unfolding m1_def using i by (simp split: option.splits)
  have other: "m1 ! j = m ! j" if "j \<noteq> i" for j
    unfolding m1_def using that by (simp split: option.splits)
  from rest have rest1: "\<forall>(w, i)\<in>set items. i < length m1" unfolding len1 .
  from Cons.IH[OF rest1 rows1 Cons.prems(3) dist]
  obtain m' where m': "fill_matrix idx items m1 = Inr m'" "length m' = length m1"
    "\<forall>row\<in>set m'. length row = D"
    "\<forall>(w, i)\<in>set items. m' ! i = (case idx w of Some v \<Rightarrow> v | None \<Rightarrow> m1 ! i)"
    "\<forall>j<length m1. j \<notin> snd ` set items \<longrightarrow> m' ! j = m1 ! j"
    by blast
  have a: "m' ! i = (case idx w of Some v \<Rightarrow> v | None \<Rightarrow> m ! i)"
    using m'(5) fresh i len1 at_i by simp
  have b: "m' ! i2 = (case idx w2 of Some v \<Rightarrow> v | None \<Rightarrow> m ! i2)"
    if "(w2, i2) \<in> set items" for w2 i2
  proof -
    from that fresh have "i2 \<noteq> i" by force
    from m'(4) that have "m' ! i2 = (case idx w2 of Some v \<Rightarrow> v | None \<Rightarrow> m1 ! i2)" by blast
    with other[OF \<open>i2 \<noteq> i\<close>] show ?thesis by (simp split: option.splits)
  qed
  have c: "m' ! j = m ! j" if "j < length m" "j \<notin> snd ` set (p # items)" for j
  proof -
    from that(2) have "j \<noteq> i" "j \<notin> snd ` set items" by (auto simp: p)
    with m'(5) that(1) len1 other show ?thesis by simp
  qed
  have items: "\<forall>(w, i)\<in>set (p # items). m' ! i = (case idx w of Some v \<Rightarrow> v | None \<Rightarrow> m ! i)"
    using a b unfolding p by auto
  from step m'(1,2,3) len1 items c show ?case by auto
qed

lemma glove_vector_Cons:
  "glove_vector fromstring (line # f) w =
     (case glove_vector fromstring f w of
        Some v \<Rightarrow> Some v
      | None \<Rightarrow> map_of (glove_entry fromstring line) w)"
proof -
  have "rev (glove_entry fromstring line) = glove_entry fromstring line"
    by (simp add: glove_entry_def split: list.splits)
  then show ?thesis
    by (simp add: glove_vector_def map_add_def split: option.splits)
qed

lemma read_glove_lines:
  "\<forall>line\<in>set f. glove_line fromstring line \<Longrightarrow>
   read_glove fromstring f idx =
     Inr (\<lambda>w. case glove_vector fromstring f w of Some v \<Rightarrow> Some v | None \<Rightarrow> idx w)"
proof (induction f arbitrary: idx)
  case Nil
  then show ?case by (simp add: glove_vector_def)
next
  case (Cons line f)
  from Cons.prems have "glove_line fromstring line" by simp
  then obtain word coefs where sp: "split_maxsplit1 line = [word, coefs]"
    by (auto simp: glove_line_def split: list.splits)
  from Cons.prems have rest: "\<forall>line\<in>set f. glove_line fromstring line" by simp
  show ?case
    by (simp add: sp unpack2_def Cons.IH[OF rest] glove_vector_Cons glove_entry_def fun_eq_iff
        split: option.splits)
qed

lemma glove_vector_length:
  "\<forall>line\<in>set f. glove_line fromstring line \<Longrightarrow> glove_vector fromstring f w = Some v \<Longrightarrow>
   length v = 100"
proof (induction f)
  case Nil
  then show ?case by (simp add: glove_vector_def)
next
  case (Cons line f)
  from Cons.prems(1) have line: "glove_line fromstring line"
    and rest: "\<forall>line\<in>set f. glove_line fromstring line" by simp_all
  show ?case
  proof (cases "glove_vector fromstring f w")
    case (Some u)
    with Cons.prems(2) have "u = v" by (simp add: glove_vector_Cons)
    with Cons.IH[OF rest] Some show ?thesis by simp
  next
    case None
    with Cons.prems(2) have "map_of (glove_entry fromstring line) w = Some v"
      by (simp add: glove_vector_Cons)
    with line show ?thesis
      by (auto simp: glove_entry_def glove_line_def split: list.splits if_splits)
  qed
qed

lemma vectorizer_call_shape:
  "length (vectorizer_call lib vectorizer texts) = length texts"
  "\<forall>row\<in>set (vectorizer_call lib vectorizer texts). length row = output_sequence_length vectorizer"
  by (auto simp: vectorizer_call_def Let_def)

lemma adapt_vocabulary_length: "length (get_vocabulary (adapt lib mt osl texts)) \<le> mt"
  by (simp add: get_vocabulary_def adapt_def)

text \<open>
  C6. Let every line of the GloVe file hold a word and 100 coefficients. Then
  \<open>glove_vectorize\<close> returns three arrays and a layer. The arrays are the texts
  vectorized by a layer whose vocabulary, of at most 20000 tokens, was learned from the
  training texts alone: one row per text, every row of length 200. The layer is not
  trainable, its input dimension is the length of the vocabulary plus 2, and its output
  dimension is 100. Its matrix has that many rows of length 100. Every word of the
  vocabulary has an index, and the row at the index is the vector of the word in the
  GloVe file, or all zeros when the file does not have the word. The rows at the other
  indices are all zeros.
\<close>

theorem glove_vectorize_spec:
  assumes glove: "files path_to_glove_file = Some f"
    and lines: "\<forall>line\<in>set f. glove_line fromstring line"
  shows "let voc = get_vocabulary (adapt lib 20000 200 train_texts) in
     \<exists>x_train x_val x_test layer.
       glove_vectorize ops lib fromstring files train_texts val_texts test_texts path_to_glove_file
         = Inr (x_train, x_val, x_test, layer) \<and>
       length voc \<le> 20000 \<and>
       x_train = vectorizer_call lib (adapt lib 20000 200 train_texts) train_texts \<and>
       x_val = vectorizer_call lib (adapt lib 20000 200 train_texts) val_texts \<and>
       x_test = vectorizer_call lib (adapt lib 20000 200 train_texts) test_texts \<and>
       length x_train = length train_texts \<and>
       length x_val = length val_texts \<and>
       length x_test = length test_texts \<and>
       (\<forall>row\<in>set x_train \<union> set x_val \<union> set x_test. length row = 200) \<and>
       input_dim layer = length voc + 2 \<and> output_dim layer = 100 \<and> \<not> trainable layer \<and>
       length (embeddings_initializer layer) = length voc + 2 \<and>
       (\<forall>row\<in>set (embeddings_initializer layer). length row = 100) \<and>
       (\<forall>word\<in>set voc. \<exists>i<length voc.
           (word, i) \<in> set (word_index voc) \<and> voc ! i = word \<and>
           embeddings_initializer layer ! i =
             (case glove_vector fromstring f word of
                Some v \<Rightarrow> v
              | None \<Rightarrow> replicate 100 (fzero ops))) \<and>
       (\<forall>i<length voc + 2. i \<notin> snd ` set (word_index voc) \<longrightarrow>
           embeddings_initializer layer ! i = replicate 100 (fzero ops))"
proof -
  define vz where "vz = adapt lib 20000 200 train_texts"
  define voc where "voc = get_vocabulary vz"
  define zeros where "zeros = replicate (length voc + 2) (replicate 100 (fzero ops))"
  define idx where "idx = glove_vector fromstring f"
  have osl: "output_sequence_length vz = 200" unfolding vz_def by (simp add: adapt_def)
  have "(\<lambda>w. case glove_vector fromstring f w of Some v \<Rightarrow> Some v | None \<Rightarrow> Map.empty w) = idx"
    unfolding idx_def by (auto simp: fun_eq_iff split: option.splits)
  with read_glove_lines[OF lines, of Map.empty]
  have read: "read_glove fromstring f Map.empty = Inr idx" by simp
  have p1: "\<forall>(w, i)\<in>set (word_index voc). i < length zeros"
    using word_index_item(1)[of _ _ voc] unfolding zeros_def by fastforce
  have p2: "\<forall>row\<in>set zeros. length row = 100" unfolding zeros_def by simp
  have p3: "\<forall>w v. idx w = Some v \<longrightarrow> length v = 100"
    unfolding idx_def using glove_vector_length[OF lines] by blast
  from fill_matrix_rows[OF p1 p2 p3 word_index_distinct_values]
  obtain m where m: "fill_matrix idx (word_index voc) zeros = Inr m" "length m = length zeros"
    "\<forall>row\<in>set m. length row = 100"
    "\<forall>(w, i)\<in>set (word_index voc). m ! i = (case idx w of Some v \<Rightarrow> v | None \<Rightarrow> zeros ! i)"
    "\<forall>j<length zeros. j \<notin> snd ` set (word_index voc) \<longrightarrow> m ! j = zeros ! j"
    by blast
  define layer where "layer = \<lparr>input_dim = length voc + 2, output_dim = 100,
     embeddings_initializer = m, trainable = False, layer_name = ''glove_embeddings''\<rparr>"
  have val: "glove_vectorize ops lib fromstring files train_texts val_texts test_texts
        path_to_glove_file
      = Inr (vectorizer_call lib vz train_texts, vectorizer_call lib vz val_texts,
             vectorizer_call lib vz test_texts, layer)"
    unfolding glove_vectorize_def Let_def vz_def[symmetric] voc_def[symmetric] glove
      zeros_def[symmetric] layer_def
    by (simp add: read m(1))
  have len: "length voc \<le> 20000" unfolding voc_def vz_def by (rule adapt_vocabulary_length)
  have rows: "\<forall>row\<in>set (vectorizer_call lib vz train_texts) \<union> set (vectorizer_call lib vz val_texts)
       \<union> set (vectorizer_call lib vz test_texts). length row = 200"
    using vectorizer_call_shape(2)[of lib vz] unfolding osl by blast
  have zrow: "zeros ! i = replicate 100 (fzero ops)" if "i < length voc + 2" for i
    unfolding zeros_def using that by (rule nth_replicate)
  have words: "\<exists>i<length voc. (word, i) \<in> set (word_index voc) \<and> voc ! i = word \<and>
       embeddings_initializer layer ! i =
         (case glove_vector fromstring f word of Some v \<Rightarrow> v | None \<Rightarrow> replicate 100 (fzero ops))"
    if "word \<in> set voc" for word
  proof -
    from that word_index_keys[of voc] obtain i where i: "(word, i) \<in> set (word_index voc)"
      by force
    note wi = word_index_item[OF i]
    from m(4) i have "m ! i = (case idx word of Some v \<Rightarrow> v | None \<Rightarrow> zeros ! i)" by blast
    with wi(1) have "embeddings_initializer layer ! i =
         (case glove_vector fromstring f word of Some v \<Rightarrow> v | None \<Rightarrow> replicate 100 (fzero ops))"
      unfolding layer_def idx_def by (simp add: zrow split: option.splits)
    with i wi show ?thesis by blast
  qed
  have others: "embeddings_initializer layer ! i = replicate 100 (fzero ops)"
    if "i < length voc + 2" "i \<notin> snd ` set (word_index voc)" for i
    using m(5) that zrow[OF that(1)] unfolding layer_def zeros_def by simp
  have shape: "length (vectorizer_call lib vz train_texts) = length train_texts"
    "length (vectorizer_call lib vz val_texts) = length val_texts"
    "length (vectorizer_call lib vz test_texts) = length test_texts"
    by (simp_all add: vectorizer_call_shape(1))
  have layer: "input_dim layer = length voc + 2" "output_dim layer = 100" "\<not> trainable layer"
    "length (embeddings_initializer layer) = length voc + 2"
    "\<forall>row\<in>set (embeddings_initializer layer). length row = 100"
    unfolding layer_def using m(2,3) by (simp_all add: zeros_def)
  show ?thesis
    unfolding Let_def vz_def[symmetric] voc_def[symmetric]
    using val len rows shape layer words others by blast
qed

text \<open>
  A GloVe file of another dimension is refused: with two coefficients on a line, the
  assignment of the vector of \<open>good\<close> to its row of 100 entries raises ValueError.
\<close>

theorem glove_vectorize_short_vectors:
  "ex_glove ''glove.2d.txt'' = Some [''day 1 1'', ''good 2 2''] \<and>
   glove_vectorize sym_ops toy_keras sym_fromstring ex_glove [''good day''] [''bad day''] [''good'']
     ''glove.2d.txt'' = Inl ValueError"
  by code_simp

lemma ex_glove_lines:
  "\<forall>line\<in>set [''day '' @ concat (replicate 100 ''1 ''), ''good '' @ concat (replicate 100 ''2 '')].
     glove_line sym_fromstring line"
  by code_simp

lemma ex_glove_vectors:
  "glove_vector sym_fromstring
     [''day '' @ concat (replicate 100 ''1 ''), ''good '' @ concat (replicate 100 ''2 '')] ''good''
     = Some (replicate 100 (SLib ''2''))"
  "glove_vector sym_fromstring
     [''day '' @ concat (replicate 100 ''1 ''), ''good '' @ concat (replicate 100 ''2 '')] ''[UNK]''
     = None"
  by code_simp+

lemma ex_vocabulary:
  "get_vocabulary (adapt toy_keras 20000 200 [''good day'']) = [[], ''[UNK]'', ''good'', ''day'']"
  by code_simp

theorem glove_vectorize_spec_witness:
  "ex_glove ''glove.100d.txt'' =
     Some [''day '' @ concat (replicate 100 ''1 ''), ''good '' @ concat (replicate 100 ''2 '')] \<and>
   glove_line sym_fromstring (''day '' @ concat (replicate 100 ''1 '')) \<and>
   glove_line sym_fromstring (''good '' @ concat (replicate 100 ''2 '')) \<and>
   (\<exists>x_train x_val x_test layer.
      glove_vectorize sym_ops toy_keras sym_fromstring ex_glove [''good day''] [''bad day''] [''good'']
        ''glove.100d.txt'' = Inr (x_train, x_val, x_test, layer) \<and>
      length x_train = 1 \<and> (\<forall>row\<in>set x_train. length row = 200) \<and>
      input_dim layer = 6 \<and> output_dim layer = 100 \<and> \<not> trainable layer \<and>
      length (embeddings_initializer layer) = 6 \<and>
      embeddings_initializer layer ! 2 = replicate 100 (SLib ''2'') \<and>
      embeddings_initializer layer ! 1 = replicate 100 SZero)"
proof -
  have gf: "ex_glove ''glove.100d.txt'' =
     Some [''day '' @ concat (replicate 100 ''1 ''), ''good '' @ concat (replicate 100 ''2 '')]"
    by (simp add: ex_glove_def)
  have z: "fzero sym_ops = SZero" by (simp add: sym_ops_def)
  have wi: "(w, i) \<in> set (word_index [[], ''[UNK]'', ''good'', ''day'']) \<longleftrightarrow>
      (w, i) \<in> {([], 0), (''[UNK]'', 1), (''good'', 2), (''day'', 3)}" for w i
    by (simp add: word_index_def dict_of_pairs_def upt_rec numeral_2_eq_2 numeral_3_eq_3)
  from glove_vectorize_spec[where files = ex_glove and path_to_glove_file = "''glove.100d.txt''"
      and f = "[''day '' @ concat (replicate 100 ''1 ''), ''good '' @ concat (replicate 100 ''2 '')]"
      and fromstring = sym_fromstring and ops = sym_ops and lib = toy_keras
      and train_texts = "[''good day'']" and val_texts = "[''bad day'']"
      and test_texts = "[''good'']", OF gf ex_glove_lines]
  obtain x_train x_val x_test layer where r:
    "glove_vectorize sym_ops toy_keras sym_fromstring ex_glove [''good day''] [''bad day''] [''good'']
        ''glove.100d.txt'' = Inr (x_train, x_val, x_test, layer)"
    "length x_train = length [''good day'']"
    "\<forall>row\<in>set x_train \<union> set x_val \<union> set x_test. length row = 200"
    "input_dim layer = length [[], ''[UNK]'', ''good'', ''day''] + 2"
    "output_dim layer = 100" "\<not> trainable layer"
    "length (embeddings_initializer layer) = length [[], ''[UNK]'', ''good'', ''day''] + 2"
    "\<forall>word\<in>set [[], ''[UNK]'', ''good'', ''day'']. \<exists>i<length [[], ''[UNK]'', ''good'', ''day''].
        (word, i) \<in> set (word_index [[], ''[UNK]'', ''good'', ''day'']) \<and>
        [[], ''[UNK]'', ''good'', ''day''] ! i = word \<and>
        embeddings_initializer layer ! i =
          (case glove_vector sym_fromstring
             [''day '' @ concat (replicate 100 ''1 ''), ''good '' @ concat (replicate 100 ''2 '')] word of
             Some v \<Rightarrow> v | None \<Rightarrow> replicate 100 SZero)"
    unfolding Let_def ex_vocabulary z by blast
  from r(8) obtain i where i: "(''good'', i) \<in> set (word_index [[], ''[UNK]'', ''good'', ''day''])"
    "embeddings_initializer layer ! i =
          (case glove_vector sym_fromstring
             [''day '' @ concat (replicate 100 ''1 ''), ''good '' @ concat (replicate 100 ''2 '')] ''good'' of
             Some v \<Rightarrow> v | None \<Rightarrow> replicate 100 SZero)"
    by fastforce
  from i(1) have "i = 2" unfolding wi by simp
  with i(2)[unfolded ex_glove_vectors(1)]
  have row2: "embeddings_initializer layer ! 2 = replicate 100 (SLib ''2'')"
    by (simp only: option.case)
  from r(8) obtain j where j: "(''[UNK]'', j) \<in> set (word_index [[], ''[UNK]'', ''good'', ''day''])"
    "embeddings_initializer layer ! j =
          (case glove_vector sym_fromstring
             [''day '' @ concat (replicate 100 ''1 ''), ''good '' @ concat (replicate 100 ''2 '')] ''[UNK]'' of
             Some v \<Rightarrow> v | None \<Rightarrow> replicate 100 SZero)"
    by fastforce
  from j(1) have "j = 1" unfolding wi by simp
  with j(2)[unfolded ex_glove_vectors(2)]
  have row1: "embeddings_initializer layer ! 1 = replicate 100 SZero"
    by (simp only: option.case)
  from r(2) have len: "length x_train = 1" by simp
  from r(3) have rows: "\<forall>row\<in>set x_train. length row = 200" by blast
  from r(4) have dim: "input_dim layer = 6" by simp
  from r(7) have mlen: "length (embeddings_initializer layer) = 6" by simp
  from ex_glove_lines
  have gl: "glove_line sym_fromstring (''day '' @ concat (replicate 100 ''1 ''))"
    "glove_line sym_fromstring (''good '' @ concat (replicate 100 ''2 ''))"
    by (simp_all only: list.set ball_simps)
  from gf gl r(1) len rows dim r(5,6) mlen row2 row1 show ?thesis by blast
qed

end
